theory Spec2Isabelle
  imports Main
begin

section \<open>Backtrace symbolization in \<open>src/utils.cc\<close>\<close>

text \<open>
  The functions \<open>parse_backtrace_line\<close>, \<open>demangle_cpp_name\<close>, \<open>run_addr2line\<close> and
  \<open>print_backtrace\<close> of \<open>src/utils.cc\<close> are embedded below. The C code works on
  NUL-terminated character buffers through pointers and overwrites delimiters with NUL in
  place, so a buffer is a \<open>char list\<close>, a pointer into it is an integer offset from the
  start of the buffer, and every read and write is checked against the bounds of the
  buffer. An access outside the buffer is undefined behaviour in C; the model returns it as
  the value \<open>Inl (OutOfBounds p)\<close>, where \<open>p\<close> is the offending offset.
\<close>

subsection \<open>Memory: buffers, pointers, C strings\<close>

datatype fault = OutOfBounds int | NullPointer

type_synonym 'a result = "fault + 'a"

definition bindE :: "'a result \<Rightarrow> ('a \<Rightarrow> 'b result) \<Rightarrow> 'b result" where
  "bindE m f = (case m of Inl e \<Rightarrow> Inl e | Inr x \<Rightarrow> f x)"

definition NUL :: char where
  "NUL = CHR 0x00"

definition newline :: char where
  "newline = CHR 0x0A"

text \<open>\<open>*p\<close> as an rvalue.\<close>

definition rd :: "char list \<Rightarrow> int \<Rightarrow> char result" where
  "rd mem p = (if 0 \<le> p \<and> p < int (length mem) then Inr (mem ! nat p) else Inl (OutOfBounds p))"

text \<open>\<open>*p = c\<close>.\<close>

definition wr :: "char list \<Rightarrow> int \<Rightarrow> char \<Rightarrow> (char list) result" where
  "wr mem p c = (if 0 \<le> p \<and> p < int (length mem) then Inr (mem[nat p := c]) else Inl (OutOfBounds p))"

text \<open>
  \<open>strchr(s, c)\<close>: the first position at or after \<open>s\<close> that holds \<open>c\<close>, scanning up to
  the terminating NUL; \<open>None\<close> is the NULL pointer.
\<close>

function strchr :: "char list \<Rightarrow> int \<Rightarrow> char \<Rightarrow> (int option) result" where
  "strchr mem s c =
     (if 0 \<le> s \<and> s < int (length mem) then
        (if mem ! nat s = c then Inr (Some s)
         else if mem ! nat s = NUL then Inr None
         else strchr mem (s + 1) c)
      else Inl (OutOfBounds s))"
  by pat_completeness auto
termination
  by (relation "measure (\<lambda>(mem, s, c). nat (int (length mem) - s))") auto

declare strchr.simps [simp del]

text \<open>
  The C string that starts at \<open>p\<close>: what \<open>%s\<close>, \<open>strcmp\<close> and \<open>__cxa_demangle\<close> read,
  up to and excluding the first NUL.
\<close>

function c_str :: "char list \<Rightarrow> int \<Rightarrow> string result" where
  "c_str mem p =
     (if 0 \<le> p \<and> p < int (length mem) then
        (if mem ! nat p = NUL then Inr []
         else bindE (c_str mem (p + 1)) (\<lambda>s. Inr (mem ! nat p # s)))
      else Inl (OutOfBounds p))"
  by pat_completeness auto
termination
  by (relation "measure (\<lambda>(mem, p). nat (int (length mem) - p))") auto

declare c_str.simps [simp del]

text \<open>
  A string of the program as the buffer that holds it: \<open>strlen + 1\<close> bytes, the last one NUL.
  This is the copy \<open>scoped_malloc<char> line(symbols[i], symbols[i] + (strlen(symbols[i]) + 1))\<close>.
\<close>

definition c_buffer :: "string \<Rightarrow> char list" where
  "c_buffer s = s @ [NUL]"

subsection \<open>\<open>parse_backtrace_line\<close>\<close>

text \<open>
  The out-parameters \<open>filename\<close>, \<open>function\<close>, \<open>offset\<close>, \<open>address\<close> are pointers into the
  line buffer, which the function has modified; \<open>function\<close> and \<open>offset\<close> may be NULL.
\<close>

record parse_out =
  buf :: "char list"
  filename :: int
  "function" :: "int option"
  offset :: "int option"
  address :: int

datatype parse_ret = ReturnFalse | ReturnTrue parse_out

text \<open>The common tail of both branches, from the comment
  \<open>We are now at the opening bracket of the address\<close> on.\<close>

definition parse_address :: "char list \<Rightarrow> int \<Rightarrow> int option \<Rightarrow> int option \<Rightarrow> int \<Rightarrow> parse_ret result" where
  "parse_address mem fname func off line =
     bindE (rd mem line) (\<lambda>c.
     if c \<noteq> CHR ''['' then Inr ReturnFalse else
     let line = line + 1; addr = line in
     bindE (strchr mem line CHR '']'') (\<lambda>r.
     case r of None \<Rightarrow> Inr ReturnFalse
     | Some line \<Rightarrow>
         bindE (rd mem (line + 1)) (\<lambda>c1.
         if c1 \<noteq> NUL then Inr ReturnFalse else
         bindE (wr mem line NUL) (\<lambda>mem.
         Inr (ReturnTrue \<lparr>buf = mem, filename = fname, function = func, offset = off,
                          address = addr\<rparr>)))))"

definition parse_backtrace_line :: "char list \<Rightarrow> int \<Rightarrow> parse_ret result" where
  "parse_backtrace_line mem line =
     (let fname = line in
      bindE (strchr mem line CHR ''('') (\<lambda>r1.
      case r1 of
        Some paren1 \<Rightarrow>
          bindE (strchr mem line CHR '')'') (\<lambda>r2.
          case r2 of None \<Rightarrow> Inr ReturnFalse
          | Some paren2 \<Rightarrow>
              bindE (wr mem paren2 NUL) (\<lambda>mem.
              bindE (wr mem paren1 NUL) (\<lambda>mem.
              let func = paren1 + 1 in
              bindE (strchr mem func CHR ''+'') (\<lambda>r3.
              case r3 of None \<Rightarrow> Inr ReturnFalse
              | Some plus' \<Rightarrow>
                  bindE (wr mem plus' NUL) (\<lambda>mem.
                  let off = plus' + 1; line = paren2 + 1 in
                  bindE (rd mem line) (\<lambda>c.
                  if c \<noteq> CHR '' '' then Inr ReturnFalse else
                  parse_address mem fname (Some func) (Some off) (line + 1)))))))
      | None \<Rightarrow>
          bindE (strchr mem line CHR ''['') (\<lambda>r2.
          case r2 of None \<Rightarrow> Inr ReturnFalse
          | Some bracket \<Rightarrow>
              let line = bracket - 1 in
              bindE (rd mem line) (\<lambda>c.
              if c \<noteq> CHR '' '' then Inr ReturnFalse else
              bindE (wr mem line NUL) (\<lambda>mem.
              parse_address mem fname None None (line + 1))))))"

text \<open>
  The parsed symbol as the caller reads it: each non-NULL pointer as the C string it points
  to in the modified buffer. \<open>None\<close> is the \<open>false\<close> return (the spec's ParseError).
\<close>

record parsed_symbol =
  sym_module :: string
  sym_function :: "string option"
  sym_offset :: "string option"
  sym_address :: string

definition c_str_opt :: "char list \<Rightarrow> int option \<Rightarrow> (string option) result" where
  "c_str_opt mem p = (case p of None \<Rightarrow> Inr None | Some q \<Rightarrow> bindE (c_str mem q) (\<lambda>s. Inr (Some s)))"

definition read_symbol :: "parse_out \<Rightarrow> parsed_symbol result" where
  "read_symbol po =
     bindE (c_str (buf po) (filename po)) (\<lambda>m.
     bindE (c_str_opt (buf po) (function po)) (\<lambda>f.
     bindE (c_str_opt (buf po) (offset po)) (\<lambda>off.
     bindE (c_str (buf po) (address po)) (\<lambda>a.
     Inr \<lparr>sym_module = m, sym_function = f, sym_offset = off, sym_address = a\<rparr>))))"

definition parse :: "string \<Rightarrow> (parsed_symbol option) result" where
  "parse s =
     bindE (parse_backtrace_line (c_buffer s) 0) (\<lambda>r.
     case r of ReturnFalse \<Rightarrow> Inr None
     | ReturnTrue po \<Rightarrow> bindE (read_symbol po) (\<lambda>ps. Inr (Some ps)))"

subsection \<open>The environment of \<open>print_backtrace\<close>\<close>

text \<open>
  What \<open>print_backtrace\<close> gets from outside the program is a parameter of the model:
  \<^item> \<open>backtrace_symbols\<close>: the descriptor array that \<open>backtrace\<close> followed by
    \<open>backtrace_symbols\<close> returns, one C string (so without NUL) per captured frame, in
    the order of the frames; \<open>size\<close> is its length, at most \<open>max_frames = 100\<close>;
    \<open>None\<close> is the NULL return;
  \<^item> \<open>cxa_demangle\<close>: \<open>abi::__cxa_demangle(mangled_name, NULL, 0, &res)\<close>, as the pair of
    the returned string and the status \<open>res\<close>;
  \<^item> \<open>popen\<close>: \<open>popen(cmd, "r")\<close>; \<open>None\<close> is the NULL return, \<open>Some bytes\<close> is a stream
    that delivers \<open>bytes\<close>, the standard output of the command.
  The effects are the bytes written to \<open>out\<close> and the commands handed to \<open>popen\<close>.
\<close>

record env =
  backtrace_symbols :: "string list option"
  cxa_demangle :: "string \<Rightarrow> string \<times> int"
  popen :: "string \<Rightarrow> string option"

record world =
  out :: string
  popen_calls :: "string list"

definition fprintf :: "world \<Rightarrow> string \<Rightarrow> world" where
  "fprintf w s = w\<lparr>out := out w @ s\<rparr>"

text \<open>\<open>%d\<close> of a non-negative integer.\<close>

fun dec :: "nat \<Rightarrow> string" where
  "dec n = (if n < 10 then [''0123456789'' ! n] else dec (n div 10) @ [''0123456789'' ! (n mod 10)])"

declare dec.simps [simp del]

subsection \<open>\<open>demangle_cpp_name\<close>\<close>

datatype exc = demangle_failed_exc_t

definition demangle_cpp_name :: "env \<Rightarrow> string \<Rightarrow> exc + string" where
  "demangle_cpp_name e mangled_name =
     (let (name_as_c_str, res) = cxa_demangle e mangled_name in
      if res = 0 then Inr name_as_c_str else Inl demangle_failed_exc_t)"

subsection \<open>\<open>run_addr2line\<close>\<close>

text \<open>
  \<open>executable\<close> and \<open>address\<close> point into the buffer \<open>mem\<close> of the parsed line; \<open>line\<close> is
  the caller's result buffer of \<open>line_size\<close> bytes, with \<open>line_size\<close> at least 1 (the
  only call passes 255). \<open>addr2line_cmd\<close> is the \<open>snprintf\<close> into \<open>cmd_buf[255]\<close>, which
  keeps at most 254 characters of the command; \<open>fread\<close> stores at most \<open>line_size - 1\<close>
  bytes at the start of \<open>line\<close> and returns their number. The result is the returned flag
  with the \<open>line\<close> buffer as the function leaves it.
\<close>

definition addr2line_cmd :: "string \<Rightarrow> string \<Rightarrow> string" where
  "addr2line_cmd exe_s addr_s = take 254 (''addr2line -s -e '' @ exe_s @ '' '' @ addr_s)"

definition run_addr2line ::
  "env \<Rightarrow> char list \<Rightarrow> int \<Rightarrow> int \<Rightarrow> char list \<Rightarrow> nat \<Rightarrow> world \<Rightarrow> ((bool \<times> char list) \<times> world) result" where
  "run_addr2line e mem executable address' line line_size w =
     bindE (c_str mem executable) (\<lambda>exe_s.
     bindE (c_str mem address') (\<lambda>addr_s.
     let cmd_buf = addr2line_cmd exe_s addr_s;
         w = w\<lparr>popen_calls := popen_calls w @ [cmd_buf]\<rparr> in
     case popen e cmd_buf of
       None \<Rightarrow> Inr ((False, line), w)
     | Some stdout \<Rightarrow>
         let bytes = take (line_size - 1) stdout;
             count = length bytes;
             line = bytes @ drop count line in
         if count = 0 then Inr ((False, line), w) else
         bindE (rd line (int count - 1)) (\<lambda>c.
         bindE (if c = newline then wr line (int count - 1) NUL else wr line (int count) NUL) (\<lambda>line.
         bindE (c_str line 0) (\<lambda>s.
         if s = ''??:0'' then Inr ((False, line), w) else Inr ((True, line), w))))))"

subsection \<open>\<open>print_backtrace\<close>\<close>

text \<open>The body of the loop over the frames, for frame \<open>i\<close> with descriptor \<open>symbols[i]\<close>.\<close>

definition print_frame :: "env \<Rightarrow> bool \<Rightarrow> nat \<Rightarrow> string \<Rightarrow> world \<Rightarrow> world result" where
  "print_frame e use_addr2line i symbol w =
     (let line = c_buffer symbol;
          w = fprintf w (dec (i + 1) @ '': '') in
      bindE (parse_backtrace_line line 0) (\<lambda>r.
      case r of
        ReturnFalse \<Rightarrow> Inr (fprintf w (symbol @ [newline]))
      | ReturnTrue po \<Rightarrow>
          bindE
            (case function po of
               Some func \<Rightarrow>
                 bindE (c_str (buf po) func) (\<lambda>func_s.
                 case demangle_cpp_name e func_s of
                   Inr demangled \<Rightarrow> Inr (fprintf w demangled)
                 | Inl demangle_failed_exc_t \<Rightarrow>
                     (case offset po of
                        None \<Rightarrow> Inl NullPointer
                      | Some off \<Rightarrow>
                          bindE (c_str (buf po) off) (\<lambda>off_s.
                          Inr (fprintf w (func_s @ ''+'' @ off_s)))))
             | None \<Rightarrow> Inr (fprintf w ''?'')) (\<lambda>w.
          let w = fprintf w '' at '';
              line2 = replicate 255 NUL in
          bindE
            (if use_addr2line then run_addr2line e (buf po) (filename po) (address po) line2 255 w
             else Inr ((False, line2), w)) (\<lambda>((found, line2), w).
          bindE
            (if found then bindE (c_str line2 0) (\<lambda>s. Inr (fprintf w s))
             else
               bindE (c_str (buf po) (address po)) (\<lambda>addr_s.
               bindE (c_str (buf po) (filename po)) (\<lambda>exe_s.
               Inr (fprintf w (addr_s @ '' ('' @ exe_s @ '')''))))) (\<lambda>w.
          Inr (fprintf w [newline]))))))"

fun print_frames :: "env \<Rightarrow> bool \<Rightarrow> nat \<Rightarrow> string list \<Rightarrow> world \<Rightarrow> world result" where
  "print_frames e use_addr2line i [] w = Inr w"
| "print_frames e use_addr2line i (symbol # symbols) w =
     (case print_frame e use_addr2line i symbol w of
        Inl f \<Rightarrow> Inl f
      | Inr w' \<Rightarrow> print_frames e use_addr2line (i + 1) symbols w')"

definition print_backtrace :: "env \<Rightarrow> bool \<Rightarrow> world \<Rightarrow> world result" where
  "print_backtrace e use_addr2line w =
     (case backtrace_symbols e of
        Some symbols \<Rightarrow> print_frames e use_addr2line 0 symbols w
      | None \<Rightarrow> Inr (fprintf w (''(too little memory for backtrace)'' @ [newline])))"

subsection \<open>The report in terms of strings\<close>

text \<open>
  The text that \<open>print_backtrace\<close> writes for a parsed frame, stated on the strings of the
  parsed symbol instead of on pointers into the line buffer: the name (lines 566 to 575 of
  \<open>utils.cc\<close>) and the location (lines 579 to 584). They are compared with \<open>print_frame\<close>
  below. Passing a NULL \<open>offset\<close> to \<open>%s\<close> is the fault \<open>NullPointer\<close>.
\<close>

definition frame_name :: "env \<Rightarrow> parsed_symbol \<Rightarrow> string result" where
  "frame_name e ps =
     (case sym_function ps of
        None \<Rightarrow> Inr ''?''
      | Some f \<Rightarrow>
          (case demangle_cpp_name e f of
             Inr demangled \<Rightarrow> Inr demangled
           | Inl demangle_failed_exc_t \<Rightarrow>
               (case sym_offset ps of
                  None \<Rightarrow> Inl NullPointer
                | Some off \<Rightarrow> Inr (f @ ''+'' @ off))))"

definition address_and_module :: "parsed_symbol \<Rightarrow> string" where
  "address_and_module ps = sym_address ps @ '' ('' @ sym_module ps @ '')''"

definition frame_location :: "env \<Rightarrow> bool \<Rightarrow> parsed_symbol \<Rightarrow> string" where
  "frame_location e use_addr2line ps =
     (if \<not> use_addr2line then address_and_module ps
      else
        case popen e (addr2line_cmd (sym_module ps) (sym_address ps)) of
          None \<Rightarrow> address_and_module ps
        | Some stdout \<Rightarrow>
            let bytes = take 254 stdout;
                s = takeWhile (\<lambda>c. c \<noteq> NUL) (if last bytes = newline then butlast bytes else bytes)
            in if bytes = [] \<or> s = ''??:0'' then address_and_module ps else s)"

text \<open>
  The source location resolver as claim C8 words it, on what the subprocess delivered
  (\<open>None\<close> when it could not be started): nothing for no output and for the marker
  \<open>??:0\<close>, otherwise the output without one trailing line terminator.
\<close>

definition resolve_location_spec :: "string option \<Rightarrow> string option" where
  "resolve_location_spec output =
     (case output of
        None \<Rightarrow> None
      | Some bytes \<Rightarrow>
          if bytes = [] then None
          else let trimmed = (if last bytes = newline then butlast bytes else bytes)
               in if trimmed = ''??:0'' then None else Some trimmed)"

subsection \<open>Predicates for the memory safety of the parser\<close>

text \<open>
  A buffer is NUL-terminated when its last byte is NUL. \<open>bracket_first\<close> are the lines
  without \<open>(\<close> that start with \<open>[\<close>.
\<close>

definition nul_terminated :: "char list \<Rightarrow> bool" where
  "nul_terminated mem \<longleftrightarrow> mem \<noteq> [] \<and> last mem = NUL"

text \<open>What is in bounds and readable after a successful parse.\<close>

definition readable :: "parse_out \<Rightarrow> bool" where
  "readable po \<longleftrightarrow>
     nul_terminated (buf po)
     \<and> 0 \<le> filename po \<and> filename po < int (length (buf po))
     \<and> 0 \<le> address po \<and> address po < int (length (buf po))
     \<and> (\<forall>p. function po = Some p \<longrightarrow> 0 \<le> p \<and> p < int (length (buf po)))
     \<and> (\<forall>p. offset po = Some p \<longrightarrow> 0 \<le> p \<and> p < int (length (buf po)))"

definition bracket_first :: "string \<Rightarrow> bool" where
  "bracket_first l \<longleftrightarrow> l \<noteq> [] \<and> hd l = CHR ''['' \<and> CHR ''('' \<notin> set l"

subsection \<open>Environments for the examples\<close>

definition addr2line_env :: env where
  "addr2line_env =
     \<lparr>backtrace_symbols = Some [''./prog [0x4005a0]''],
      cxa_demangle = (\<lambda>s. ([], - 2)),
      popen = (\<lambda>cmd. if cmd = ''addr2line -s -e ./prog 0x4005a0''
                       then Some (''utils.cc:548'' @ [newline]) else Some (''??:0'' @ [newline]))\<rparr>"

definition scenario1_env :: env where
  "scenario1_env =
     \<lparr>backtrace_symbols = Some [''./prog(_Z3fooi+0x10) [0x4005a0]''],
      cxa_demangle = (\<lambda>s. if s = ''_Z3fooi'' then (''foo(int)'', 0) else ([], - 2)),
      popen = (\<lambda>cmd. None)\<rparr>"

definition garbage_env :: env where
  "garbage_env =
     \<lparr>backtrace_symbols = Some [''./prog [0x4005a0]'', ''garbage'', ''./prog [0x4005a0]''],
      cxa_demangle = (\<lambda>s. ([], - 2)),
      popen = (\<lambda>cmd. None)\<rparr>"

definition plain_c_env :: env where
  "plain_c_env =
     \<lparr>backtrace_symbols = Some [''./prog(main+0x1f) [0x4005a0]'', ''./prog [0x4005a0]''],
      cxa_demangle = (\<lambda>s. ([], - 2)),
      popen = (\<lambda>cmd. if cmd = ''addr2line -s -e ./prog 0x4005a0''
                       then Some (''utils.cc:548'' @ [newline]) else Some (''??:0'' @ [newline]))\<rparr>"

section \<open>Basic facts about the memory operations\<close>

lemma bindE_Inl [simp]: "bindE (Inl f) g = Inl f"
  by (simp add: bindE_def)

lemma bindE_Inr [simp]: "bindE (Inr x) g = g x"
  by (simp add: bindE_def)

lemma bindE_eq_Inr: "bindE m g = Inr y \<longleftrightarrow> (\<exists>x. m = Inr x \<and> g x = Inr y)"
  by (cases m) simp_all

lemma rd_at: "p = int (length a) \<Longrightarrow> rd (a @ x # r) p = Inr x"
  by (simp add: rd_def)

lemma wr_at: "p = int (length a) \<Longrightarrow> wr (a @ x # r) p c = Inr (a @ c # r)"
  by (simp add: wr_def)

text \<open>Scanning over a stretch \<open>pre\<close> that holds neither the character looked for nor NUL.\<close>

lemma strchr_found:
  assumes "c \<notin> set pre" "NUL \<notin> set pre" "p = int (length a)"
  shows "strchr (a @ pre @ c # r) p c = Inr (Some (int (length a + length pre)))"
  using assms
proof (induction pre arbitrary: a p)
  case Nil
  then show ?case by (subst strchr.simps) simp
next
  case (Cons x pre)
  have "strchr ((a @ [x]) @ pre @ c # r) (p + 1) c = Inr (Some (int (length (a @ [x]) + length pre)))"
    using Cons.prems by (intro Cons.IH) auto
  then show ?case
    using Cons.prems by (subst strchr.simps) (auto simp: nth_append)
qed

lemma strchr_not_found:
  assumes "c \<notin> set pre" "NUL \<notin> set pre" "c \<noteq> NUL" "p = int (length a)"
  shows "strchr (a @ pre @ NUL # r) p c = Inr None"
  using assms
proof (induction pre arbitrary: a p)
  case Nil
  then show ?case by (subst strchr.simps) simp
next
  case (Cons x pre)
  have "strchr ((a @ [x]) @ pre @ NUL # r) (p + 1) c = Inr None"
    using Cons.prems by (intro Cons.IH) auto
  then show ?case
    using Cons.prems by (subst strchr.simps) (auto simp: nth_append)
qed

lemma c_str_at:
  assumes "NUL \<notin> set s" "p = int (length a)"
  shows "c_str (a @ s @ NUL # r) p = Inr s"
  using assms
proof (induction s arbitrary: a p)
  case Nil
  then show ?case by (subst c_str.simps) simp
next
  case (Cons x s)
  have "c_str ((a @ [x]) @ s @ NUL # r) (p + 1) = Inr s"
    using Cons.prems by (intro Cons.IH) auto
  then show ?case
    using Cons.prems by (subst c_str.simps) (auto simp: nth_append)
qed

text \<open>NUL is none of the delimiters.\<close>

lemma NUL_neq [simp]:
  "NUL \<noteq> CHR ''(''" "NUL \<noteq> CHR '')''" "NUL \<noteq> CHR ''+''" "NUL \<noteq> CHR '' ''"
  "NUL \<noteq> CHR ''[''" "NUL \<noteq> CHR '']''"
  "CHR ''('' \<noteq> NUL" "CHR '')'' \<noteq> NUL" "CHR ''+'' \<noteq> NUL" "CHR '' '' \<noteq> NUL"
  "CHR ''['' \<noteq> NUL" "CHR '']'' \<noteq> NUL"
  by (simp_all add: NUL_def)

section \<open>The report when no descriptors are available\<close>

text \<open>
  Claim C9. When \<open>backtrace_symbols\<close> returns NULL, \<open>print_backtrace\<close> writes the single line
  \<open>(too little memory for backtrace)\<close> and nothing else: no frame line is written and no
  command is run.
\<close>

theorem print_backtrace_no_symbols:
  assumes "backtrace_symbols e = None"
  shows "print_backtrace e use_addr2line w =
           Inr (w\<lparr>out := out w @ ''(too little memory for backtrace)'' @ [newline]\<rparr>)"
  using assms by (simp add: print_backtrace_def fprintf_def)

theorem print_backtrace_no_symbols_witness:
  "print_backtrace \<lparr>backtrace_symbols = None, cxa_demangle = (\<lambda>s. ([], - 2)), popen = (\<lambda>c. None)\<rparr>
     True \<lparr>out = [], popen_calls = []\<rparr> =
   Inr \<lparr>out = ''(too little memory for backtrace)'' @ [newline], popen_calls = []\<rparr>"
  using print_backtrace_no_symbols
    [of "\<lparr>backtrace_symbols = None, cxa_demangle = (\<lambda>s. ([], - 2)), popen = (\<lambda>c. None)\<rparr>"
        True "\<lparr>out = [], popen_calls = []\<rparr>"]
  by simp

section \<open>Lines of the first form: \<open>module(function+offset) [address]\<close>\<close>

lemma parse_address_ok:
  assumes "CHR '']'' \<notin> set a" "NUL \<notin> set a" "line = int (length pre)"
  shows "parse_address (pre @ CHR ''['' # a @ CHR '']'' # NUL # r) fname func off line =
           Inr (ReturnTrue \<lparr>buf = pre @ CHR ''['' # a @ NUL # NUL # r, filename = fname,
                  function = func, offset = off, address = line + 1\<rparr>)"
proof -
  let ?mem = "pre @ CHR ''['' # a @ CHR '']'' # NUL # r"
  have 1: "rd ?mem line = Inr CHR ''[''"
    using assms(3) by (rule rd_at)
  have 2: "strchr ?mem (line + 1) CHR '']'' = Inr (Some (line + 1 + int (length a)))"
    using strchr_found [of "CHR '']''" a "line + 1" "pre @ [CHR ''['']" "NUL # r"] assms
    by simp
  have 3: "rd ?mem (line + 1 + int (length a) + 1) = Inr NUL"
    using rd_at [of "line + 1 + int (length a) + 1" "pre @ CHR ''['' # a @ [CHR '']'']" NUL r] assms(3)
    by simp
  have 4: "wr ?mem (line + 1 + int (length a)) NUL = Inr (pre @ CHR ''['' # a @ NUL # NUL # r)"
    using wr_at [of "line + 1 + int (length a)" "pre @ CHR ''['' # a" "CHR '']''" "NUL # r" NUL] assms(3)
    by simp
  show ?thesis
    using 1 2 3 4 by (simp add: parse_address_def)
qed

lemma parse_backtrace_line_shape_A:
  assumes m: "CHR ''('' \<notin> set m" "CHR '')'' \<notin> set m" "NUL \<notin> set m"
    and f: "CHR ''+'' \<notin> set f" "CHR '')'' \<notin> set f" "NUL \<notin> set f"
    and off: "CHR '')'' \<notin> set off" "NUL \<notin> set off"
    and a: "CHR '']'' \<notin> set a" "NUL \<notin> set a"
  shows "parse_backtrace_line
           (c_buffer (m @ ''('' @ f @ ''+'' @ off @ '') ['' @ a @ '']'')) 0 =
         Inr (ReturnTrue
           \<lparr>buf = m @ NUL # f @ NUL # off @ NUL # '' ['' @ a @ [NUL, NUL],
            filename = 0,
            function = Some (int (length m) + 1),
            offset = Some (int (length m) + 1 + int (length f) + 1),
            address = int (length m) + 1 + int (length f) + 1 + int (length off) + 3\<rparr>)"
proof -
  let ?tail = "CHR '' '' # CHR ''['' # a @ [CHR '']'', NUL]"
  let ?mem0 = "m @ CHR ''('' # f @ CHR ''+'' # off @ CHR '')'' # ?tail"
  let ?mem1 = "m @ CHR ''('' # f @ CHR ''+'' # off @ NUL # ?tail"
  let ?mem2 = "m @ NUL # f @ CHR ''+'' # off @ NUL # ?tail"
  let ?mem3 = "m @ NUL # f @ NUL # off @ NUL # ?tail"
  let ?paren1 = "int (length m)"
  let ?plus = "int (length m) + 1 + int (length f)"
  let ?paren2 = "int (length m) + 1 + int (length f) + 1 + int (length off)"
  have buf: "c_buffer (m @ ''('' @ f @ ''+'' @ off @ '') ['' @ a @ '']'') = ?mem0"
    by (simp add: c_buffer_def)
  have 1: "strchr ?mem0 0 CHR ''('' = Inr (Some ?paren1)"
    using strchr_found [of "CHR ''(''" m 0 "[]"] m by simp
  have 2: "strchr ?mem0 0 CHR '')'' = Inr (Some ?paren2)"
    using strchr_found [of "CHR '')''" "m @ CHR ''('' # f @ CHR ''+'' # off" 0 "[]" ?tail] m f off
    by simp
  have 3: "wr ?mem0 ?paren2 NUL = Inr ?mem1"
    using wr_at [of ?paren2 "m @ CHR ''('' # f @ CHR ''+'' # off" "CHR '')''" ?tail NUL] by simp
  have 4: "wr ?mem1 ?paren1 NUL = Inr ?mem2"
    using wr_at [of ?paren1 m "CHR ''(''" "f @ CHR ''+'' # off @ NUL # ?tail" NUL] by simp
  have 5: "strchr ?mem2 (?paren1 + 1) CHR ''+'' = Inr (Some ?plus)"
    using strchr_found [of "CHR ''+''" f "?paren1 + 1" "m @ [NUL]" "off @ NUL # ?tail"] f by simp
  have 6: "wr ?mem2 ?plus NUL = Inr ?mem3"
    using wr_at [of ?plus "m @ NUL # f" "CHR ''+''" "off @ NUL # ?tail" NUL] by simp
  have 7: "rd ?mem3 (?paren2 + 1) = Inr CHR '' ''"
    using rd_at [of "?paren2 + 1" "m @ NUL # f @ NUL # off @ [NUL]" "CHR '' ''" "CHR ''['' # a @ [CHR '']'', NUL]"]
    by simp
  have 8: "parse_address ?mem3 0 (Some (?paren1 + 1)) (Some (?plus + 1)) (?paren2 + 1 + 1) =
      Inr (ReturnTrue \<lparr>buf = m @ NUL # f @ NUL # off @ NUL # '' ['' @ a @ [NUL, NUL], filename = 0,
                  function = Some (?paren1 + 1), offset = Some (?plus + 1), address = ?paren2 + 1 + 1 + 1\<rparr>)"
    using parse_address_ok [of a "?paren2 + 1 + 1" "m @ NUL # f @ NUL # off @ NUL # '' ''" "[]"
        0 "Some (?paren1 + 1)" "Some (?plus + 1)"] a
    by simp
  show ?thesis
    unfolding buf parse_backtrace_line_def
    using 1 2 3 4 5 6 7 8 by simp
qed

text \<open>
  Where the first form is parsed as written. When the fields can be told apart by the
  delimiters as the code looks for them (the module holds no parenthesis, the function
  neither \<open>+\<close> nor \<open>)\<close>, the offset no \<open>)\<close>, the address no \<open>]\<close>, and, the line
  being a C string, no field holds NUL), \<open>parse_backtrace_line\<close> succeeds and the four
  strings it hands back are exactly the four fields.
\<close>

lemma parse_shape_A_fields:
  assumes "CHR ''('' \<notin> set m" "CHR '')'' \<notin> set m" "NUL \<notin> set m"
    and "CHR ''+'' \<notin> set f" "CHR '')'' \<notin> set f" "NUL \<notin> set f"
    and "CHR '')'' \<notin> set off" "NUL \<notin> set off"
    and "CHR '']'' \<notin> set a" "NUL \<notin> set a"
  shows "parse (m @ ''('' @ f @ ''+'' @ off @ '') ['' @ a @ '']'') =
           Inr (Some \<lparr>sym_module = m, sym_function = Some f, sym_offset = Some off,
                        sym_address = a\<rparr>)"
proof -
  let ?buf = "m @ NUL # f @ NUL # off @ NUL # '' ['' @ a @ [NUL, NUL]"
  have 1: "c_str ?buf 0 = Inr m"
    using c_str_at [of m 0 "[]"] assms by simp
  have 2: "c_str ?buf (int (length m) + 1) = Inr f"
    using c_str_at [of f "int (length m) + 1" "m @ [NUL]"] assms by simp
  have 3: "c_str ?buf (int (length m) + 1 + int (length f) + 1) = Inr off"
    using c_str_at [of off "int (length m) + 1 + int (length f) + 1" "m @ NUL # f @ [NUL]"] assms by simp
  have 4: "c_str ?buf (int (length m) + 1 + int (length f) + 1 + int (length off) + 3) = Inr a"
    using c_str_at [of a "int (length m) + 1 + int (length f) + 1 + int (length off) + 3"
        "m @ NUL # f @ NUL # off @ NUL # '' [''" "[NUL]"] assms by simp
  show ?thesis
    unfolding parse_def parse_backtrace_line_shape_A [OF assms]
    using 1 2 3 4 by (simp add: read_symbol_def c_str_opt_def)
qed

lemma parse_shape_A_fields_example:
  "parse (''/usr/bin/rethinkdb'' @ ''('' @ ''_Z15print_backtraceP8_IO_FILEb'' @ ''+'' @ ''0x2f'' @ '') ['' @ ''0x7f3a10'' @ '']'') =
     Inr (Some \<lparr>sym_module = ''/usr/bin/rethinkdb'', sym_function = Some ''_Z15print_backtraceP8_IO_FILEb'',
                  sym_offset = Some ''0x2f'', sym_address = ''0x7f3a10''\<rparr>)"
  using parse_shape_A_fields [of "''/usr/bin/rethinkdb''" "''_Z15print_backtraceP8_IO_FILEb''" "''0x2f''" "''0x7f3a10''"]
  by (simp add: NUL_def)

text \<open>
  Claim C2 says that every well-formed line \<open>module(function+offset) [address]\<close> is parsed
  into its four fields. The module is the text before the first \<open>(\<close>, and it may hold a
  \<open>)\<close>. \<open>parse_backtrace_line\<close> looks for \<open>)\<close> from the start of the line, not from the
  \<open>(\<close> it found, so a \<open>)\<close> in the module is taken for the one that closes the offset.
  The line with the module \<open>a)b\<close>, the function \<open>f\<close>, the offset \<open>o\<close> and the address
  \<open>x\<close> is rejected, because the character after the first \<open>)\<close> is not a space. The line
  with the module \<open>a) [x]\<close>, the function \<open>y\<close>, the offset \<open>z\<close> and the address \<open>q\<close> is
  accepted with other fields: the module \<open>a\<close>, the offset \<open>z) [q]\<close> and the address \<open>x\<close>.
\<close>

theorem parse_shape_A_module_with_closing_paren:
  "parse (''a)b'' @ ''('' @ ''f'' @ ''+'' @ ''o'' @ '') ['' @ ''x'' @ '']'') = Inr None
   \<and> parse (''a) [x]'' @ ''('' @ ''y'' @ ''+'' @ ''z'' @ '') ['' @ ''q'' @ '']'') =
       Inr (Some \<lparr>sym_module = ''a'', sym_function = Some ''y'', sym_offset = Some ''z) [q]'',
                    sym_address = ''x''\<rparr>)"
  by code_simp

section \<open>What a result of \<open>strchr\<close> and of a string read says about the buffer\<close>

lemma strchr_SomeD:
  assumes "strchr mem s c = Inr (Some q)" "0 \<le> s"
  shows "\<exists>pre r. drop (nat s) mem = pre @ c # r \<and> q = s + int (length pre)
           \<and> c \<notin> set pre \<and> NUL \<notin> set pre"
  using assms
proof (induction mem s c rule: strchr.induct)
  case (1 mem s c)
  from "1.prems" have inb: "s < int (length mem)"
    by (subst (asm) strchr.simps) (simp split: if_splits)
  then have d: "drop (nat s) mem = mem ! nat s # drop (nat (s + 1)) mem"
    using "1.prems"(2) by (simp add: Cons_nth_drop_Suc nat_add_distrib)
  show ?case
  proof (cases "mem ! nat s = c")
    case True
    with "1.prems" inb have "q = s"
      by (subst (asm) strchr.simps) simp
    with d True show ?thesis
      by (intro exI [of _ "[]"] exI [of _ "drop (nat (s + 1)) mem"]) auto
  next
    case False
    with "1.prems" inb have nn: "mem ! nat s \<noteq> NUL" and rec: "strchr mem (s + 1) c = Inr (Some q)"
      by (subst (asm) strchr.simps, simp split: if_splits)+
    from "1.IH" [OF _ False nn rec] "1.prems"(2) inb
    obtain pre r where "drop (nat (s + 1)) mem = pre @ c # r" "q = s + 1 + int (length pre)"
      "c \<notin> set pre" "NUL \<notin> set pre"
      by auto
    with d False nn show ?thesis
      by (intro exI [of _ "mem ! nat s # pre"] exI [of _ r]) auto
  qed
qed

lemma strchr_NoneD:
  assumes "strchr mem s c = Inr None" "0 \<le> s"
  shows "\<exists>pre r. drop (nat s) mem = pre @ NUL # r \<and> c \<notin> set pre \<and> NUL \<notin> set pre \<and> c \<noteq> NUL"
  using assms
proof (induction mem s c rule: strchr.induct)
  case (1 mem s c)
  from "1.prems" have inb: "s < int (length mem)"
    by (subst (asm) strchr.simps) (simp split: if_splits)
  then have d: "drop (nat s) mem = mem ! nat s # drop (nat (s + 1)) mem"
    using "1.prems"(2) by (simp add: Cons_nth_drop_Suc nat_add_distrib)
  from "1.prems" inb have nc: "mem ! nat s \<noteq> c"
    by (subst (asm) strchr.simps) (simp split: if_splits)
  show ?case
  proof (cases "mem ! nat s = NUL")
    case True
    with d nc show ?thesis
      by (intro exI [of _ "[]"] exI [of _ "drop (nat (s + 1)) mem"]) auto
  next
    case False
    with "1.prems" inb nc have rec: "strchr mem (s + 1) c = Inr None"
      by (subst (asm) strchr.simps) simp
    from "1.IH" [OF _ nc False rec] "1.prems"(2) inb
    obtain pre r where "drop (nat (s + 1)) mem = pre @ NUL # r" "c \<notin> set pre" "NUL \<notin> set pre" "c \<noteq> NUL"
      by auto
    with d False nc show ?thesis
      by (intro exI [of _ "mem ! nat s # pre"] exI [of _ r]) auto
  qed
qed

lemma strchr_InlD:
  assumes "strchr mem s c = Inl f" "0 \<le> s" "s \<le> int (length mem)"
  shows "NUL \<notin> set (drop (nat s) mem) \<and> f = OutOfBounds (int (length mem))"
  using assms
proof (induction mem s c rule: strchr.induct)
  case (1 mem s c)
  show ?case
  proof (cases "s < int (length mem)")
    case False
    with "1.prems" show ?thesis
      by (subst (asm) strchr.simps) auto
  next
    case True
    then have d: "drop (nat s) mem = mem ! nat s # drop (nat (s + 1)) mem"
      using "1.prems"(2) by (simp add: Cons_nth_drop_Suc nat_add_distrib)
    from "1.prems" True have nc: "mem ! nat s \<noteq> c" and nn: "mem ! nat s \<noteq> NUL"
      and rec: "strchr mem (s + 1) c = Inl f"
      by (subst (asm) strchr.simps, simp split: if_splits)+
    from "1.IH" [OF _ nc nn rec] "1.prems"(2) True
    have "NUL \<notin> set (drop (nat (s + 1)) mem) \<and> f = OutOfBounds (int (length mem))"
      by auto
    with d nn show ?thesis by auto
  qed
qed

lemma c_str_InrD:
  assumes "c_str mem p = Inr s" "0 \<le> p"
  shows "\<exists>r. drop (nat p) mem = s @ NUL # r \<and> NUL \<notin> set s"
  using assms
proof (induction mem p arbitrary: s rule: c_str.induct)
  case (1 mem p)
  from "1.prems" have inb: "p < int (length mem)"
    by (subst (asm) c_str.simps) (simp split: if_splits)
  then have d: "drop (nat p) mem = mem ! nat p # drop (nat (p + 1)) mem"
    using "1.prems"(2) by (simp add: Cons_nth_drop_Suc nat_add_distrib)
  show ?case
  proof (cases "mem ! nat p = NUL")
    case True
    with "1.prems" inb have "s = []"
      by (subst (asm) c_str.simps) simp
    with d True show ?thesis by auto
  next
    case False
    with "1.prems" inb obtain s' where rec: "c_str mem (p + 1) = Inr s'" and s: "s = mem ! nat p # s'"
      by (subst (asm) c_str.simps) (auto simp: bindE_eq_Inr)
    from "1.IH" [OF _ False rec] "1.prems"(2) inb
    obtain r where "drop (nat (p + 1)) mem = s' @ NUL # r" "NUL \<notin> set s'"
      by auto
    with d False s show ?thesis by auto
  qed
qed

lemma c_str_InlD:
  assumes "c_str mem p = Inl f" "0 \<le> p" "p \<le> int (length mem)"
  shows "NUL \<notin> set (drop (nat p) mem)"
  using assms
proof (induction mem p rule: c_str.induct)
  case (1 mem p)
  show ?case
  proof (cases "p < int (length mem)")
    case False
    with "1.prems" show ?thesis by simp
  next
    case True
    then have d: "drop (nat p) mem = mem ! nat p # drop (nat (p + 1)) mem"
      using "1.prems"(2) by (simp add: Cons_nth_drop_Suc nat_add_distrib)
    from "1.prems" True have nn: "mem ! nat p \<noteq> NUL"
      by (subst (asm) c_str.simps) (simp split: if_splits)
    with "1.prems" True have rec: "c_str mem (p + 1) = Inl f"
      by (subst (asm) c_str.simps) (cases "c_str mem (p + 1)", simp_all)
    from "1.IH" [OF _ nn rec] "1.prems"(2) True
    have "NUL \<notin> set (drop (nat (p + 1)) mem)"
      by auto
    with d nn show ?thesis by auto
  qed
qed

lemma rd_InrD: "rd mem p = Inr c \<Longrightarrow> 0 \<le> p \<and> p < int (length mem) \<and> mem ! nat p = c"
  by (simp add: rd_def split: if_splits)

lemma wr_InrD: "wr mem p c = Inr mem' \<Longrightarrow> 0 \<le> p \<and> p < int (length mem) \<and> mem' = mem[nat p := c]"
  by (simp add: wr_def split: if_splits)

lemma split_at:
  assumes "0 \<le> p" "p < int (length mem)"
  shows "mem = take (nat p) mem @ mem ! nat p # drop (nat (p + 1)) mem \<and> length (take (nat p) mem) = nat p"
  using assms by (simp add: id_take_nth_drop nat_add_distrib)

lemma parse_address_TrueD:
  assumes "parse_address mem fname func off line = Inr (ReturnTrue po)"
  shows "\<exists>pre a r. mem = pre @ CHR ''['' # a @ CHR '']'' # NUL # r \<and> line = int (length pre)
           \<and> CHR '']'' \<notin> set a \<and> NUL \<notin> set a
           \<and> po = \<lparr>buf = pre @ CHR ''['' # a @ NUL # NUL # r, filename = fname, function = func,
                    offset = off, address = line + 1\<rparr>"
proof -
  from assms obtain c where c: "rd mem line = Inr c" and c1: "c = CHR ''[''"
    and rest: "bindE (strchr mem (line + 1) CHR '']'') (\<lambda>r.
       case r of None \<Rightarrow> Inr ReturnFalse
       | Some q \<Rightarrow>
         bindE (rd mem (q + 1)) (\<lambda>c1.
         if c1 \<noteq> NUL then Inr ReturnFalse else
         bindE (wr mem q NUL) (\<lambda>mem.
         Inr (ReturnTrue \<lparr>buf = mem, filename = fname, function = func, offset = off,
                          address = line + 1\<rparr>)))) = Inr (ReturnTrue po)"
    by (auto simp: parse_address_def bindE_eq_Inr Let_def split: if_splits)
  from rd_InrD [OF c] c1 have line: "0 \<le> line" "line < int (length mem)" "mem ! nat line = CHR ''[''"
    by auto
  define pre where "pre = take (nat line) mem"
  from split_at [OF line(1,2)] line(3)
  have mem1: "mem = pre @ CHR ''['' # drop (nat (line + 1)) mem" and lpre: "length pre = nat line"
    by (simp_all add: pre_def)
  from rest obtain q where q: "strchr mem (line + 1) CHR '']'' = Inr (Some q)"
    and rest2: "bindE (rd mem (q + 1)) (\<lambda>c1.
         if c1 \<noteq> NUL then Inr ReturnFalse else
         bindE (wr mem q NUL) (\<lambda>mem.
         Inr (ReturnTrue \<lparr>buf = mem, filename = fname, function = func, offset = off,
                          address = line + 1\<rparr>))) = Inr (ReturnTrue po)"
    by (auto simp: bindE_eq_Inr split: option.splits)
  from strchr_SomeD [OF q] line(1)
  obtain a r' where d: "drop (nat (line + 1)) mem = a @ CHR '']'' # r'" and qv: "q = line + 1 + int (length a)"
    and a: "CHR '']'' \<notin> set a" "NUL \<notin> set a"
    by auto
  from mem1 d have mem2: "mem = pre @ CHR ''['' # a @ CHR '']'' # r'"
    by simp
  from rest2 obtain mem' where n: "rd mem (q + 1) = Inr NUL" and w: "wr mem q NUL = Inr mem'"
    and po: "po = \<lparr>buf = mem', filename = fname, function = func, offset = off, address = line + 1\<rparr>"
    by (auto simp: bindE_eq_Inr split: if_splits)
  let ?front = "pre @ CHR ''['' # a @ [CHR '']'']"
  have qn: "nat (q + 1) = length ?front"
    using qv lpre line(1) by simp
  have mem3: "mem = ?front @ r'"
    using mem2 by simp
  from rd_InrD [OF n] have "nat (q + 1) < length mem" "mem ! nat (q + 1) = NUL"
    by auto
  then have "length ?front < length (?front @ r')" "(?front @ r') ! length ?front = NUL"
    using qn mem3 by simp_all
  then obtain r where r': "r' = NUL # r"
    by (cases r') (simp_all add: nth_append_length del: length_append append_assoc append.simps)
  have "wr (pre @ CHR ''['' # a @ CHR '']'' # NUL # r) q NUL = Inr (pre @ CHR ''['' # a @ NUL # NUL # r)"
    using wr_at [of q "pre @ CHR ''['' # a" "CHR '']''" "NUL # r" NUL] qv lpre line(1) by simp
  with w mem2 r' have "mem' = pre @ CHR ''['' # a @ NUL # NUL # r"
    by simp
  with po mem2 r' a lpre line(1) show ?thesis
    by (intro exI [of _ pre] exI [of _ a] exI [of _ r]) simp
qed

section \<open>Lines of the second form: \<open>module [address]\<close>\<close>

lemma parse_ReturnTrueD:
  assumes "parse s = Inr (Some ps)"
  shows "\<exists>po. parse_backtrace_line (c_buffer s) 0 = Inr (ReturnTrue po) \<and> read_symbol po = Inr ps"
proof -
  from assms obtain r where r: "parse_backtrace_line (c_buffer s) 0 = Inr r"
    and c: "(case r of ReturnFalse \<Rightarrow> Inr None
             | ReturnTrue po \<Rightarrow> bindE (read_symbol po) (\<lambda>ps. Inr (Some ps))) = Inr (Some ps)"
    by (auto simp: parse_def bindE_eq_Inr)
  from c obtain po where "r = ReturnTrue po" "read_symbol po = Inr ps"
    by (cases r) (auto simp: bindE_eq_Inr)
  with r show ?thesis by blast
qed

lemma parse_shape_B_TrueD:
  assumes "parse_backtrace_line (c_buffer l) 0 = Inr (ReturnTrue po)"
    and "CHR ''('' \<notin> set l" "NUL \<notin> set l"
  shows "\<exists>m a. l = m @ '' ['' @ a @ '']''
           \<and> po = \<lparr>buf = m @ NUL # CHR ''['' # a @ [NUL, NUL], filename = 0, function = None,
                    offset = None, address = int (length m) + 2\<rparr>"
proof -
  let ?mem = "l @ [NUL]"
  have no_paren: "strchr ?mem 0 CHR ''('' = Inr None"
    using strchr_not_found [of "CHR ''(''" l 0 "[]" "[]"] assms(2,3) by simp
  with assms(1) obtain bracket mem1 where
    b: "strchr ?mem 0 CHR ''['' = Inr (Some bracket)"
    and sp: "rd ?mem (bracket - 1) = Inr CHR '' ''"
    and w: "wr ?mem (bracket - 1) NUL = Inr mem1"
    and pa: "parse_address mem1 0 None None (bracket - 1 + 1) = Inr (ReturnTrue po)"
    by (auto simp: parse_backtrace_line_def c_buffer_def bindE_eq_Inr Let_def
        split: option.splits if_splits)
  from rd_InrD [OF sp] have b1: "0 \<le> bracket - 1" "bracket - 1 < int (length ?mem)"
    "?mem ! nat (bracket - 1) = CHR '' ''"
    by auto
  from wr_InrD [OF w] have mem1: "mem1 = ?mem[nat (bracket - 1) := NUL]"
    by simp
  from parse_address_TrueD [OF pa]
  obtain pre a r where m1: "mem1 = pre @ CHR ''['' # a @ CHR '']'' # NUL # r"
    and bl: "bracket = int (length pre)"
    and a: "CHR '']'' \<notin> set a" "NUL \<notin> set a"
    and po: "po = \<lparr>buf = pre @ CHR ''['' # a @ NUL # NUL # r, filename = 0, function = None,
                    offset = None, address = bracket + 1\<rparr>"
    by auto
  from b1(1) bl obtain m x where pre: "pre = m @ [x]"
    by (cases pre rule: rev_cases) auto
  have idx: "nat (bracket - 1) = length m"
    using bl pre by simp
  have "length mem1 = length ?mem"
    using mem1 by simp
  have "mem1 ! length m = NUL"
    using mem1 idx b1(2) by simp
  with m1 pre have x: "x = NUL"
    by (simp add: nth_append)
  have "?mem = mem1[length m := CHR '' '']"
    using mem1 idx b1(3) by (metis list_update_id list_update_overwrite)
  also have "\<dots> = m @ CHR '' '' # CHR ''['' # a @ CHR '']'' # NUL # r"
    using m1 pre by (simp add: list_update_append)
  finally have eq: "l @ [NUL] = (m @ CHR '' '' # CHR ''['' # a @ [CHR '']'']) @ NUL # r"
    by simp
  have "r = []"
  proof (rule ccontr)
    assume "r \<noteq> []"
    then obtain r0 y where "r = r0 @ [y]"
      by (cases r rule: rev_cases) auto
    with eq have "l = (m @ CHR '' '' # CHR ''['' # a @ [CHR '']'']) @ NUL # r0"
      by (metis append_assoc append_Cons butlast_snoc)
    with assms(3) show False by simp
  qed
  with eq have l: "l = m @ '' ['' @ a @ '']''"
    by simp
  from po pre x bl \<open>r = []\<close> have "po = \<lparr>buf = m @ NUL # CHR ''['' # a @ [NUL, NUL], filename = 0, function = None,
                    offset = None, address = int (length m) + 2\<rparr>"
    by simp
  with l show ?thesis by blast
qed

text \<open>
  Claim C3 asks for a non-empty address on every accepted line without \<open>(\<close>. Nothing in
  \<open>parse_backtrace_line\<close> looks at the length of the address: the line \<open>prog []\<close> is
  accepted with the empty address.
\<close>

theorem parse_shape_B_empty_address:
  "CHR ''('' \<notin> set ''prog []'' \<and>
   parse ''prog []'' =
     Inr (Some \<lparr>sym_module = ''prog'', sym_function = None, sym_offset = None, sym_address = []\<rparr>)"
  by code_simp

text \<open>
  Claim C3, amended. On every accepted line \<open>l\<close> without \<open>(\<close>, the function and the offset
  are NULL, and the module and the address are the two parts of the line around the
  \<open> [\<close> and before the final \<open>]\<close>: \<open>l\<close> is the module, a space, \<open>[\<close>, the address (which
  may be empty) and \<open>]\<close>.
\<close>

theorem parse_shape_B_fields:
  assumes "CHR ''('' \<notin> set l" "NUL \<notin> set l" "parse l = Inr (Some ps)"
  shows "sym_function ps = None \<and> sym_offset ps = None
       \<and> l = sym_module ps @ '' ['' @ sym_address ps @ '']''"
proof -
  from parse_ReturnTrueD [OF assms(3)] obtain po
    where po: "parse_backtrace_line (c_buffer l) 0 = Inr (ReturnTrue po)" and rs: "read_symbol po = Inr ps"
    by auto
  from parse_shape_B_TrueD [OF po assms(1,2)] obtain m a
    where l: "l = m @ '' ['' @ a @ '']''"
      and pv: "po = \<lparr>buf = m @ NUL # CHR ''['' # a @ [NUL, NUL], filename = 0, function = None,
                    offset = None, address = int (length m) + 2\<rparr>"
    by auto
  from l assms(2) have nn: "NUL \<notin> set m" "NUL \<notin> set a"
    by auto
  have 1: "c_str (m @ NUL # CHR ''['' # a @ [NUL, NUL]) 0 = Inr m"
    using c_str_at [of m 0 "[]"] nn by simp
  have 2: "c_str (m @ NUL # CHR ''['' # a @ [NUL, NUL]) (int (length m) + 2) = Inr a"
    using c_str_at [of a "int (length m) + 2" "m @ [NUL, CHR ''['']" "[NUL]"] nn by simp
  from rs pv 1 2 have "ps = \<lparr>sym_module = m, sym_function = None, sym_offset = None, sym_address = a\<rparr>"
    by (simp add: read_symbol_def c_str_opt_def)
  with l show ?thesis by simp
qed

theorem parse_shape_B_fields_witness:
  "parse ''./prog [0x4005a0]'' =
     Inr (Some \<lparr>sym_module = ''./prog'', sym_function = None, sym_offset = None, sym_address = ''0x4005a0''\<rparr>)
   \<and> ''./prog [0x4005a0]'' = ''./prog'' @ '' ['' @ ''0x4005a0'' @ '']''"
proof -
  have p: "parse ''./prog [0x4005a0]'' =
     Inr (Some \<lparr>sym_module = ''./prog'', sym_function = None, sym_offset = None, sym_address = ''0x4005a0''\<rparr>)"
    by code_simp
  from parse_shape_B_fields [OF _ _ p] p show ?thesis
    by (simp add: NUL_def)
qed

section \<open>\<open>run_addr2line\<close>\<close>

lemma c_str_takeWhile:
  "c_str (xs @ NUL # r) 0 = Inr (takeWhile (\<lambda>c. c \<noteq> NUL) xs)"
proof (cases "dropWhile (\<lambda>c. c \<noteq> NUL) xs")
  case Nil
  then have "NUL \<notin> set xs"
    by (metis (mono_tags, lifting) dropWhile_eq_Nil_conv)
  then have tw: "takeWhile (\<lambda>c. c \<noteq> NUL) xs = xs"
    by (induction xs) auto
  show ?thesis
    unfolding tw using c_str_at [of xs 0 "[]" r] \<open>NUL \<notin> set xs\<close> by simp
next
  case (Cons y ys)
  then have "y = NUL"
    by (metis (mono_tags, lifting) hd_dropWhile list.sel(1) list.distinct(1))
  define t where "t = takeWhile (\<lambda>c. c \<noteq> NUL) xs"
  from Cons \<open>y = NUL\<close> have xs: "xs = t @ NUL # ys"
    unfolding t_def by (metis takeWhile_dropWhile_id)
  have "NUL \<notin> set t"
    unfolding t_def by (auto dest: set_takeWhileD)
  then have "c_str (t @ NUL # ys @ NUL # r) 0 = Inr t"
    using c_str_at [of t 0 "[]" "ys @ NUL # r"] by simp
  then have "c_str (xs @ NUL # r) 0 = Inr t"
    unfolding xs by simp
  then show ?thesis
    unfolding t_def .
qed

lemma after_fread:
  assumes "bytes \<noteq> []" "length bytes < length line"
  shows "\<exists>line'.
      bindE (rd (bytes @ drop (length bytes) line) (int (length bytes) - 1)) (\<lambda>c.
      bindE (if c = newline then wr (bytes @ drop (length bytes) line) (int (length bytes) - 1) NUL
             else wr (bytes @ drop (length bytes) line) (int (length bytes)) NUL) (\<lambda>line.
      bindE (c_str line 0) (\<lambda>s.
      if s = ''??:0'' then Inr ((False, line), w) else Inr ((True, line), w)))) =
        Inr ((takeWhile (\<lambda>c. c \<noteq> NUL) (if last bytes = newline then butlast bytes else bytes)
                \<noteq> ''??:0'', line'), w)
    \<and> c_str line' 0 =
        Inr (takeWhile (\<lambda>c. c \<noteq> NUL) (if last bytes = newline then butlast bytes else bytes))"
proof -
  from assms(1) obtain bs b where bs: "bytes = bs @ [b]"
    by (cases bytes rule: rev_cases) auto
  from assms(2) obtain x r where dr: "drop (length bytes) line = x # r"
    by (cases "drop (length bytes) line") auto
  let ?line1 = "bytes @ drop (length bytes) line"
  have l1: "?line1 = bs @ b # x # r"
    using bs dr by simp
  have 1: "rd ?line1 (int (length bytes) - 1) = Inr b"
    unfolding l1 using rd_at [of "int (length bytes) - 1" bs b "x # r"] bs by simp
  have 2: "wr ?line1 (int (length bytes) - 1) NUL = Inr (bs @ NUL # x # r)"
    unfolding l1 using wr_at [of "int (length bytes) - 1" bs b "x # r" NUL] bs by simp
  have 3: "wr ?line1 (int (length bytes)) NUL = Inr (bytes @ NUL # r)"
    using wr_at [of "int (length bytes)" bytes x r NUL] dr by simp
  have 4: "c_str (bs @ NUL # x # r) 0 = Inr (takeWhile (\<lambda>c. c \<noteq> NUL) bs)"
    by (rule c_str_takeWhile)
  have 5: "c_str (bytes @ NUL # r) 0 = Inr (takeWhile (\<lambda>c. c \<noteq> NUL) bytes)"
    by (rule c_str_takeWhile)
  have 6: "last bytes = b" "butlast bytes = bs"
    using bs by simp_all
  show ?thesis
  proof (cases "b = newline")
    case True
    then show ?thesis
      by (intro exI [of _ "bs @ NUL # x # r"]) (simp add: 1 2 4 6)
  next
    case False
    then show ?thesis
      by (intro exI [of _ "bytes @ NUL # r"]) (simp add: 1 3 5 6)
  qed
qed

lemma run_addr2line_result:
  assumes exe: "c_str mem executable = Inr exe_s"
    and addr: "c_str mem address' = Inr addr_s"
    and len: "length line = line_size" "0 < line_size"
  shows "\<exists>found line'.
          run_addr2line e mem executable address' line line_size w =
            Inr ((found, line'),
                 w\<lparr>popen_calls := popen_calls w @ [addr2line_cmd exe_s addr_s]\<rparr>)
        \<and> (case popen e (addr2line_cmd exe_s addr_s) of
             None \<Rightarrow> \<not> found
           | Some stdout \<Rightarrow>
               if take (line_size - 1) stdout = [] then \<not> found
               else c_str line' 0 =
                      Inr (takeWhile (\<lambda>c. c \<noteq> NUL)
                            (if last (take (line_size - 1) stdout) = newline
                             then butlast (take (line_size - 1) stdout)
                             else take (line_size - 1) stdout))
                  \<and> found = (takeWhile (\<lambda>c. c \<noteq> NUL)
                            (if last (take (line_size - 1) stdout) = newline
                             then butlast (take (line_size - 1) stdout)
                             else take (line_size - 1) stdout) \<noteq> ''??:0''))"
proof (cases "popen e (addr2line_cmd exe_s addr_s)")
  case None
  then show ?thesis
    using exe addr by (auto simp: run_addr2line_def)
next
  case (Some stdout)
  define bytes where "bytes = take (line_size - 1) stdout"
  define w' where "w' = w\<lparr>popen_calls := popen_calls w @ [addr2line_cmd exe_s addr_s]\<rparr>"
  have run: "run_addr2line e mem executable address' line line_size w =
      (if length bytes = 0 then Inr ((False, bytes @ drop (length bytes) line), w') else
       bindE (rd (bytes @ drop (length bytes) line) (int (length bytes) - 1)) (\<lambda>c.
       bindE (if c = newline then wr (bytes @ drop (length bytes) line) (int (length bytes) - 1) NUL
             else wr (bytes @ drop (length bytes) line) (int (length bytes)) NUL) (\<lambda>line.
       bindE (c_str line 0) (\<lambda>s.
       if s = ''??:0'' then Inr ((False, line), w') else Inr ((True, line), w')))))"
    unfolding run_addr2line_def bytes_def w'_def
    by (simp only: exe addr bindE_Inr Let_def Some option.case)
  show ?thesis
  proof (cases "bytes = []")
    case True
    then have r: "run_addr2line e mem executable address' line line_size w =
        Inr ((False, bytes @ drop (length bytes) line), w')"
      using run by simp
    have "take (line_size - 1) stdout = []"
      using True by (simp only: bytes_def)
    with r Some show ?thesis
      unfolding w'_def by (intro exI [of _ False] exI [of _ "bytes @ drop (length bytes) line"]) simp
  next
    case False
    have "length bytes \<le> line_size - 1"
      by (simp add: bytes_def)
    with len have "length bytes < length line"
      by simp
    from after_fread [OF False this, of w'] obtain line' where
      a: "run_addr2line e mem executable address' line line_size w =
        Inr ((takeWhile (\<lambda>c. c \<noteq> NUL) (if last bytes = newline then butlast bytes else bytes)
                \<noteq> ''??:0'', line'), w')"
      and b: "c_str line' 0 =
        Inr (takeWhile (\<lambda>c. c \<noteq> NUL) (if last bytes = newline then butlast bytes else bytes))"
      using run False by auto
    have ne: "take (line_size - 1) stdout \<noteq> []"
      using False by (simp only: bytes_def not_False_eq_True)
    show ?thesis
      apply (rule exI [of _ "takeWhile (\<lambda>c. c \<noteq> NUL) (if last bytes = newline then butlast bytes else bytes) \<noteq> ''??:0''"])
      apply (rule exI [of _ line'])
      apply (simp only: Some option.case ne if_False)
      using a b unfolding w'_def bytes_def
      apply simp
      done
  qed
qed

lemma takeWhile_no_NUL: "NUL \<notin> set xs \<Longrightarrow> takeWhile (\<lambda>c. c \<noteq> NUL) xs = xs"
  by (induction xs) auto

text \<open>
  Claim C8. \<open>run_addr2line\<close> is called only when location resolution is enabled. With
  \<open>executable\<close> and \<open>address'\<close> pointing to readable strings and a result buffer of
  \<open>line_size\<close> bytes, it runs one command and returns without a fault. Taking as the
  output of the subprocess the at most \<open>line_size - 1\<close> bytes that \<open>fread\<close> reads, and
  for text output (no NUL byte in it), the result is what \<open>resolve_location_spec\<close> says:
  \<open>false\<close> when \<open>popen\<close> fails, when nothing was read and when the output without one
  trailing newline is \<open>??:0\<close>; otherwise \<open>true\<close>, with the output without one trailing
  newline as the string in \<open>line\<close>.
\<close>

theorem run_addr2line_resolves:
  assumes "c_str mem executable = Inr exe_s"
    and "c_str mem address' = Inr addr_s"
    and "length line = line_size" "0 < line_size"
    and "\<forall>stdout. popen e (addr2line_cmd exe_s addr_s) = Some stdout
           \<longrightarrow> NUL \<notin> set (take (line_size - 1) stdout)"
  shows "\<exists>found line'.
          run_addr2line e mem executable address' line line_size w =
            Inr ((found, line'),
                 w\<lparr>popen_calls := popen_calls w @ [addr2line_cmd exe_s addr_s]\<rparr>)
        \<and> (case resolve_location_spec
                   (map_option (take (line_size - 1)) (popen e (addr2line_cmd exe_s addr_s))) of
             None \<Rightarrow> \<not> found
           | Some location \<Rightarrow> found \<and> c_str line' 0 = Inr location)"
proof -
  from run_addr2line_result [OF assms(1-4), of e w]
  obtain found line' where
    run: "run_addr2line e mem executable address' line line_size w =
            Inr ((found, line'),
                 w\<lparr>popen_calls := popen_calls w @ [addr2line_cmd exe_s addr_s]\<rparr>)"
    and res: "(case popen e (addr2line_cmd exe_s addr_s) of
             None \<Rightarrow> \<not> found
           | Some stdout \<Rightarrow>
               if take (line_size - 1) stdout = [] then \<not> found
               else c_str line' 0 =
                      Inr (takeWhile (\<lambda>c. c \<noteq> NUL)
                            (if last (take (line_size - 1) stdout) = newline
                             then butlast (take (line_size - 1) stdout)
                             else take (line_size - 1) stdout))
                  \<and> found = (takeWhile (\<lambda>c. c \<noteq> NUL)
                            (if last (take (line_size - 1) stdout) = newline
                             then butlast (take (line_size - 1) stdout)
                             else take (line_size - 1) stdout) \<noteq> ''??:0''))"
    by blast
  have "case resolve_location_spec
                   (map_option (take (line_size - 1)) (popen e (addr2line_cmd exe_s addr_s))) of
             None \<Rightarrow> \<not> found
           | Some location \<Rightarrow> found \<and> c_str line' 0 = Inr location"
  proof (cases "popen e (addr2line_cmd exe_s addr_s)")
    case None
    with res show ?thesis
      by (simp add: resolve_location_spec_def)
  next
    case (Some stdout)
    define bytes where "bytes = take (line_size - 1) stdout"
    from assms(5) Some have nn: "NUL \<notin> set bytes"
      by (simp add: bytes_def)
    then have nb: "NUL \<notin> set (butlast bytes)"
      by (auto dest: in_set_butlastD)
    from res Some have res': "if bytes = [] then \<not> found
               else c_str line' 0 =
                      Inr (takeWhile (\<lambda>c. c \<noteq> NUL) (if last bytes = newline then butlast bytes else bytes))
                  \<and> found = (takeWhile (\<lambda>c. c \<noteq> NUL) (if last bytes = newline then butlast bytes else bytes) \<noteq> ''??:0'')"
      by (simp only: bytes_def option.case)
    have tw: "takeWhile (\<lambda>c. c \<noteq> NUL) (if last bytes = newline then butlast bytes else bytes)
            = (if last bytes = newline then butlast bytes else bytes)"
      by (rule takeWhile_no_NUL) (use nn nb in auto)
    from res' have "if bytes = [] then \<not> found
               else c_str line' 0 = Inr (if last bytes = newline then butlast bytes else bytes)
                  \<and> found = ((if last bytes = newline then butlast bytes else bytes) \<noteq> ''??:0'')"
      unfolding tw .
    then have "case resolve_location_spec (Some bytes) of
             None \<Rightarrow> \<not> found
           | Some location \<Rightarrow> found \<and> c_str line' 0 = Inr location"
      by (simp add: resolve_location_spec_def Let_def split: if_splits)
    then show ?thesis
      by (simp only: Some option.map bytes_def)
  qed
  with run show ?thesis by blast
qed

theorem run_addr2line_resolves_witness:
  "\<exists>found line'.
     run_addr2line addr2line_env (''./prog'' @ NUL # ''[0x4005a0'' @ [NUL, NUL]) 0 8
         (replicate 255 NUL) 255 \<lparr>out = [], popen_calls = []\<rparr> =
       Inr ((found, line'), \<lparr>out = [], popen_calls = [''addr2line -s -e ./prog 0x4005a0'']\<rparr>)
     \<and> found \<and> c_str line' 0 = Inr ''utils.cc:548''"
proof -
  have 1: "c_str (''./prog'' @ NUL # ''[0x4005a0'' @ [NUL, NUL]) 0 = Inr ''./prog''"
    by code_simp
  have 2: "c_str (''./prog'' @ NUL # ''[0x4005a0'' @ [NUL, NUL]) 8 = Inr ''0x4005a0''"
    by code_simp
  have 3: "addr2line_cmd ''./prog'' ''0x4005a0'' = ''addr2line -s -e ./prog 0x4005a0''"
    by code_simp
  have 4: "\<forall>stdout. popen addr2line_env (addr2line_cmd ''./prog'' ''0x4005a0'') = Some stdout
           \<longrightarrow> NUL \<notin> set (take (255 - 1) stdout)"
    by (simp add: 3 addr2line_env_def NUL_def newline_def)
  have 5: "resolve_location_spec (map_option (take 254)
             (popen addr2line_env ''addr2line -s -e ./prog 0x4005a0'')) = Some ''utils.cc:548''"
    by (simp add: addr2line_env_def resolve_location_spec_def newline_def)
  from run_addr2line_resolves [OF 1 2 _ _ 4, of "replicate 255 NUL" "\<lparr>out = [], popen_calls = []\<rparr>"]
  show ?thesis
    by (simp add: 3 5)
qed

section \<open>\<open>print_backtrace\<close>, frame by frame\<close>

lemma c_str_opt_InrD:
  "c_str_opt mem p = Inr r \<Longrightarrow>
     (p = None \<and> r = None) \<or> (\<exists>q s. p = Some q \<and> c_str mem q = Inr s \<and> r = Some s)"
  by (cases p) (auto simp: c_str_opt_def bindE_eq_Inr)

lemma read_symbol_InrD:
  assumes "read_symbol po = Inr ps"
  shows "c_str (buf po) (filename po) = Inr (sym_module ps)"
    and "c_str_opt (buf po) (function po) = Inr (sym_function ps)"
    and "c_str_opt (buf po) (offset po) = Inr (sym_offset ps)"
    and "c_str (buf po) (address po) = Inr (sym_address ps)"
  using assms by (auto simp: read_symbol_def bindE_eq_Inr)

lemma parse_address_fields:
  assumes "parse_address mem fname func off line = Inr (ReturnTrue po)"
  shows "function po = func \<and> offset po = off"
  using parse_address_TrueD [OF assms] by auto

lemma parse_function_offset:
  assumes "parse_backtrace_line mem line = Inr (ReturnTrue po)"
  shows "function po = None \<longleftrightarrow> offset po = None"
proof (cases "strchr mem line CHR ''(''")
  case (Inl f)
  with assms show ?thesis
    by (simp add: parse_backtrace_line_def)
next
  case (Inr r1)
  show ?thesis
  proof (cases r1)
    case None
    with Inr assms obtain mem' l' where "parse_address mem' line None None l' = Inr (ReturnTrue po)"
      by (auto simp: parse_backtrace_line_def bindE_eq_Inr Let_def split: option.splits if_splits)
    from parse_address_fields [OF this] show ?thesis by simp
  next
    case (Some paren1)
    with Inr assms obtain mem' l' f' o' where "parse_address mem' line (Some f') (Some o') l' = Inr (ReturnTrue po)"
      by (auto simp: parse_backtrace_line_def bindE_eq_Inr Let_def split: option.splits if_splits)
    from parse_address_fields [OF this] show ?thesis by simp
  qed
qed

lemma name_block:
  assumes rs: "read_symbol po = Inr ps"
    and fo: "function po = None \<longleftrightarrow> offset po = None"
  shows "(case function po of
               Some func \<Rightarrow>
                 bindE (c_str (buf po) func) (\<lambda>func_s.
                 case demangle_cpp_name e func_s of
                   Inr demangled \<Rightarrow> Inr (fprintf w demangled)
                 | Inl demangle_failed_exc_t \<Rightarrow>
                     (case offset po of
                        None \<Rightarrow> Inl NullPointer
                      | Some off \<Rightarrow>
                          bindE (c_str (buf po) off) (\<lambda>off_s.
                          Inr (fprintf w (func_s @ ''+'' @ off_s)))))
             | None \<Rightarrow> Inr (fprintf w ''?''))
         = bindE (frame_name e ps) (\<lambda>name. Inr (fprintf w name))
       \<and> (\<exists>name. frame_name e ps = Inr name)"
proof (cases "function po")
  case None
  with read_symbol_InrD(2) [OF rs] have "sym_function ps = None"
    by (simp add: c_str_opt_def)
  with None show ?thesis
    by (simp add: frame_name_def)
next
  case (Some func)
  with read_symbol_InrD(2) [OF rs] obtain f where f: "c_str (buf po) func = Inr f" "sym_function ps = Some f"
    by (auto dest: c_str_opt_InrD)
  from Some fo obtain off where off: "offset po = Some off"
    by auto
  with read_symbol_InrD(3) [OF rs] obtain os where os: "c_str (buf po) off = Inr os" "sym_offset ps = Some os"
    by (auto dest: c_str_opt_InrD)
  show ?thesis
  proof (cases "demangle_cpp_name e f")
    case (Inl x)
    then have "demangle_cpp_name e f = Inl demangle_failed_exc_t"
      by (cases x) simp
    with Some f off os show ?thesis
      by (simp add: frame_name_def)
  next
    case (Inr d)
    with Some f off os show ?thesis
      by (simp add: frame_name_def)
  qed
qed

lemma location_block:
  assumes m: "c_str (buf po) (filename po) = Inr (sym_module ps)"
    and a: "c_str (buf po) (address po) = Inr (sym_address ps)"
  shows "bindE
            (if u then run_addr2line e (buf po) (filename po) (address po) (replicate 255 NUL) 255 w
             else Inr ((False, replicate 255 NUL), w)) (\<lambda>((found, line2), w).
          bindE
            (if found then bindE (c_str line2 0) (\<lambda>s. Inr (fprintf w s))
             else
               bindE (c_str (buf po) (address po)) (\<lambda>addr_s.
               bindE (c_str (buf po) (filename po)) (\<lambda>exe_s.
               Inr (fprintf w (addr_s @ '' ('' @ exe_s @ '')''))))) (\<lambda>w.
          Inr (fprintf w [newline])))
       = Inr (w\<lparr>out := out w @ frame_location e u ps @ [newline],
                popen_calls := popen_calls w @
                  (if u then [addr2line_cmd (sym_module ps) (sym_address ps)] else [])\<rparr>)"
proof (cases u)
  case False
  then show ?thesis
    using m a by (simp add: fprintf_def frame_location_def address_and_module_def)
next
  case True
  have len1: "length (replicate 255 NUL) = 255" and len2: "0 < (255::nat)" and n: "(255::nat) - 1 = 254"
    by simp_all
  have "\<exists>found line'. run_addr2line e (buf po) (filename po) (address po) (replicate 255 NUL) 255 w =
            Inr ((found, line'),
                 w\<lparr>popen_calls := popen_calls w @ [addr2line_cmd (sym_module ps) (sym_address ps)]\<rparr>)
      \<and> (case popen e (addr2line_cmd (sym_module ps) (sym_address ps)) of
             None \<Rightarrow> \<not> found
           | Some stdout \<Rightarrow>
               if take 254 stdout = [] then \<not> found
               else c_str line' 0 =
                      Inr (takeWhile (\<lambda>c. c \<noteq> NUL)
                            (if last (take 254 stdout) = newline
                             then butlast (take 254 stdout)
                             else take 254 stdout))
                  \<and> found = (takeWhile (\<lambda>c. c \<noteq> NUL)
                            (if last (take 254 stdout) = newline
                             then butlast (take 254 stdout)
                             else take 254 stdout) \<noteq> ''??:0''))"
    using run_addr2line_result [OF m a len1 len2, where e = e and w = w, unfolded n] .
  then obtain found line' where
    run: "run_addr2line e (buf po) (filename po) (address po) (replicate 255 NUL) 255 w =
            Inr ((found, line'),
                 w\<lparr>popen_calls := popen_calls w @ [addr2line_cmd (sym_module ps) (sym_address ps)]\<rparr>)"
    and res: "(case popen e (addr2line_cmd (sym_module ps) (sym_address ps)) of
             None \<Rightarrow> \<not> found
           | Some stdout \<Rightarrow>
               if take 254 stdout = [] then \<not> found
               else c_str line' 0 =
                      Inr (takeWhile (\<lambda>c. c \<noteq> NUL)
                            (if last (take 254 stdout) = newline
                             then butlast (take 254 stdout)
                             else take 254 stdout))
                  \<and> found = (takeWhile (\<lambda>c. c \<noteq> NUL)
                            (if last (take 254 stdout) = newline
                             then butlast (take 254 stdout)
                             else take 254 stdout) \<noteq> ''??:0''))"
    by blast
  show ?thesis
  proof (cases found)
    case f: False
    with res have "frame_location e True ps = address_and_module ps"
      by (auto simp: frame_location_def Let_def split: option.splits if_splits)
    with True f run m a show ?thesis
      by (simp add: fprintf_def address_and_module_def)
  next
    case t: True
    with res obtain s where "c_str line' 0 = Inr s" "frame_location e True ps = s"
      by (auto simp: frame_location_def Let_def split: option.splits if_splits)
    with True t run show ?thesis
      by (simp add: fprintf_def)
  qed
qed

lemma print_frame_parsed:
  assumes "parse symbol = Inr (Some ps)"
  shows "\<exists>name. frame_name e ps = Inr name \<and>
           print_frame e u i symbol w =
             Inr (w\<lparr>out := out w @ dec (i + 1) @ '': '' @ name @ '' at '' @ frame_location e u ps @ [newline],
                    popen_calls := popen_calls w @
                      (if u then [addr2line_cmd (sym_module ps) (sym_address ps)] else [])\<rparr>)"
proof -
  from parse_ReturnTrueD [OF assms] obtain po
    where po: "parse_backtrace_line (c_buffer symbol) 0 = Inr (ReturnTrue po)" and rs: "read_symbol po = Inr ps"
    by auto
  note nb = name_block [OF rs parse_function_offset [OF po], where e = e]
  from nb obtain name where name: "frame_name e ps = Inr name"
    by blast
  note lb = location_block [OF read_symbol_InrD(1) [OF rs] read_symbol_InrD(4) [OF rs], where e = e and u = u]
  have "print_frame e u i symbol w =
      Inr (fprintf (fprintf (fprintf w (dec (i + 1) @ '': '')) name) '' at ''
           \<lparr>out := out (fprintf (fprintf (fprintf w (dec (i + 1) @ '': '')) name) '' at '') @ frame_location e u ps @ [newline],
                popen_calls := popen_calls (fprintf (fprintf (fprintf w (dec (i + 1) @ '': '')) name) '' at '') @
                  (if u then [addr2line_cmd (sym_module ps) (sym_address ps)] else [])\<rparr>)"
    unfolding print_frame_def
    by (simp only: Let_def po bindE_Inr parse_ret.case nb [THEN conjunct1] name lb)
  then have "print_frame e u i symbol w =
             Inr (w\<lparr>out := out w @ dec (i + 1) @ '': '' @ name @ '' at '' @ frame_location e u ps @ [newline],
                    popen_calls := popen_calls w @
                      (if u then [addr2line_cmd (sym_module ps) (sym_address ps)] else [])\<rparr>)"
    by (simp add: fprintf_def)
  with name show ?thesis by blast
qed

lemma print_frame_unparsed:
  assumes "parse symbol = Inr None"
  shows "print_frame e u i symbol w = Inr (w\<lparr>out := out w @ dec (i + 1) @ '': '' @ symbol @ [newline]\<rparr>)"
proof -
  from assms obtain r where r: "parse_backtrace_line (c_buffer symbol) 0 = Inr r"
    and c: "(case r of ReturnFalse \<Rightarrow> Inr None
             | ReturnTrue po \<Rightarrow> bindE (read_symbol po) (\<lambda>ps. Inr (Some ps))) = Inr None"
    by (auto simp: parse_def bindE_eq_Inr)
  from c have "r = ReturnFalse"
    by (cases r) (auto simp: bindE_eq_Inr)
  with r show ?thesis
    by (simp add: print_frame_def fprintf_def)
qed

lemma print_frames_append:
  "print_frames e u i (xs @ ys) w =
     (case print_frames e u i xs w of
        Inl f \<Rightarrow> Inl f
      | Inr w' \<Rightarrow> print_frames e u (i + length xs) ys w')"
  by (induction xs arbitrary: i w) (auto split: sum.splits)

lemma print_backtrace_frame:
  assumes "backtrace_symbols e = Some (before @ symbol # after)"
  shows "print_backtrace e u w =
     (case print_frames e u 0 before w of
        Inl f \<Rightarrow> Inl f
      | Inr w1 \<Rightarrow>
          (case print_frame e u (length before) symbol w1 of
             Inl f \<Rightarrow> Inl f
           | Inr w2 \<Rightarrow> print_frames e u (length before + 1) after w2))"
  using assms by (simp add: print_backtrace_def print_frames_append split: sum.splits)

lemma dec_1: "dec (Suc 0) = ''1''"
  by code_simp

section \<open>The report, frame by frame: the claims\<close>

text \<open>
  Claim C1. The line \<open>./prog(_Z3fooi+0x10) [0x4005a0]\<close> parses into the module \<open>./prog\<close>,
  the function \<open>_Z3fooi\<close>, the offset \<open>0x10\<close> and the address \<open>0x4005a0\<close>. The
  demangler is the C++ runtime's \<open>abi::__cxa_demangle\<close>, a parameter here: when it turns
  \<open>_Z3fooi\<close> into \<open>foo(int)\<close> with status 0, \<open>demangle_cpp_name\<close> returns \<open>foo(int)\<close>,
  and a report of this one frame without \<open>addr2line\<close> is exactly the line
  \<open>1: foo(int) at 0x4005a0 (./prog)\<close>.
\<close>

theorem scenario1:
  assumes "cxa_demangle e ''_Z3fooi'' = (''foo(int)'', 0)"
    and "backtrace_symbols e = Some [''./prog(_Z3fooi+0x10) [0x4005a0]'']"
  shows "parse ''./prog(_Z3fooi+0x10) [0x4005a0]'' =
           Inr (Some \<lparr>sym_module = ''./prog'', sym_function = Some ''_Z3fooi'',
                        sym_offset = Some ''0x10'', sym_address = ''0x4005a0''\<rparr>)
       \<and> demangle_cpp_name e ''_Z3fooi'' = Inr ''foo(int)''
       \<and> print_backtrace e False w =
           Inr (w\<lparr>out := out w @ ''1: foo(int) at 0x4005a0 (./prog)'' @ [newline]\<rparr>)"
proof -
  let ?ps = "\<lparr>sym_module = ''./prog'', sym_function = Some ''_Z3fooi'',
               sym_offset = Some ''0x10'', sym_address = ''0x4005a0''\<rparr>"
  have p: "parse ''./prog(_Z3fooi+0x10) [0x4005a0]'' = Inr (Some ?ps)"
    by code_simp
  have d: "demangle_cpp_name e ''_Z3fooi'' = Inr ''foo(int)''"
    using assms(1) by (simp add: demangle_cpp_name_def)
  then have n: "frame_name e ?ps = Inr ''foo(int)''"
    by (simp add: frame_name_def)
  have l: "frame_location e False ?ps = ''0x4005a0 (./prog)''"
    by (simp add: frame_location_def address_and_module_def)
  from print_frame_parsed [OF p, of e False 0 w] n l
  have "print_frame e False 0 ''./prog(_Z3fooi+0x10) [0x4005a0]'' w =
          Inr (w\<lparr>out := out w @ ''1: foo(int) at 0x4005a0 (./prog)'' @ [newline]\<rparr>)"
    by (simp add: dec_1)
  then have "print_backtrace e False w =
           Inr (w\<lparr>out := out w @ ''1: foo(int) at 0x4005a0 (./prog)'' @ [newline]\<rparr>)"
    using assms(2) by (simp add: print_backtrace_def)
  with p d show ?thesis by blast
qed

theorem scenario1_witness:
  "print_backtrace scenario1_env False \<lparr>out = [], popen_calls = []\<rparr> =
     Inr \<lparr>out = ''1: foo(int) at 0x4005a0 (./prog)'' @ [newline], popen_calls = []\<rparr>"
  using scenario1 [of scenario1_env "\<lparr>out = [], popen_calls = []\<rparr>"]
  by (simp add: scenario1_env_def)

text \<open>
  Claim C5. When \<open>parse_backtrace_line\<close> returns \<open>false\<close> for the descriptor of frame
  \<open>i\<close>, the text written for that frame is the frame number, \<open>: \<close>, the descriptor as
  it was handed in, and a newline. In a report whose descriptors are \<open>before\<close>, this one
  and \<open>after\<close>, the frames before are printed as without it, and the frames after are
  printed next, numbered on from it.
\<close>

theorem unparsed_frame_printed_raw:
  assumes "parse symbol = Inr None"
  shows "print_frame e u i symbol w =
           Inr (w\<lparr>out := out w @ dec (i + 1) @ '': '' @ symbol @ [newline]\<rparr>)
       \<and> (backtrace_symbols e = Some (before @ symbol # after) \<longrightarrow>
            print_backtrace e u w =
              (case print_frames e u 0 before w of
                 Inl f \<Rightarrow> Inl f
               | Inr w1 \<Rightarrow>
                   print_frames e u (length before + 1) after
                     (w1\<lparr>out := out w1 @ dec (length before + 1) @ '': '' @ symbol @ [newline]\<rparr>)))"
proof (intro conjI impI)
  show "print_frame e u i symbol w =
           Inr (w\<lparr>out := out w @ dec (i + 1) @ '': '' @ symbol @ [newline]\<rparr>)"
    by (rule print_frame_unparsed [OF assms])
next
  assume b: "backtrace_symbols e = Some (before @ symbol # after)"
  show "print_backtrace e u w =
              (case print_frames e u 0 before w of
                 Inl f \<Rightarrow> Inl f
               | Inr w1 \<Rightarrow>
                   print_frames e u (length before + 1) after
                     (w1\<lparr>out := out w1 @ dec (length before + 1) @ '': '' @ symbol @ [newline]\<rparr>))"
    unfolding print_backtrace_frame [OF b] print_frame_unparsed [OF assms]
    by (simp split: sum.splits)
qed

theorem unparsed_frame_printed_raw_witness:
  "print_frame garbage_env False 1 ''garbage'' \<lparr>out = [], popen_calls = []\<rparr> =
     Inr \<lparr>out = ''2: garbage'' @ [newline], popen_calls = []\<rparr>
   \<and> print_backtrace garbage_env False \<lparr>out = [], popen_calls = []\<rparr> =
     Inr \<lparr>out = ''1: ? at 0x4005a0 (./prog)'' @ [newline] @ ''2: garbage'' @ [newline]
                 @ ''3: ? at 0x4005a0 (./prog)'' @ [newline],
          popen_calls = []\<rparr>"
proof -
  let ?w0 = "\<lparr>out = [], popen_calls = []\<rparr>"
  let ?w1 = "\<lparr>out = ''1: ? at 0x4005a0 (./prog)'' @ [newline], popen_calls = []\<rparr>"
  have p: "parse ''garbage'' = Inr None"
    by code_simp
  have b: "backtrace_symbols garbage_env =
      Some ([''./prog [0x4005a0]''] @ ''garbage'' # [''./prog [0x4005a0]''])"
    by (simp add: garbage_env_def)
  have 1: "print_frames garbage_env False 0 [''./prog [0x4005a0]''] ?w0 = Inr ?w1"
    by code_simp
  have 2: "print_frames garbage_env False (length [''./prog [0x4005a0]''] + 1) [''./prog [0x4005a0]'']
             (?w1\<lparr>out := out ?w1 @ dec (length [''./prog [0x4005a0]''] + 1) @ '': '' @ ''garbage'' @ [newline]\<rparr>) =
           Inr \<lparr>out = ''1: ? at 0x4005a0 (./prog)'' @ [newline] @ ''2: garbage'' @ [newline]
                 @ ''3: ? at 0x4005a0 (./prog)'' @ [newline],
          popen_calls = []\<rparr>"
    by code_simp
  have 3: "?w0\<lparr>out := out ?w0 @ dec (1 + 1) @ '': '' @ ''garbage'' @ [newline]\<rparr> =
           \<lparr>out = ''2: garbage'' @ [newline], popen_calls = []\<rparr>"
    by code_simp
  from unparsed_frame_printed_raw [OF p, where e = garbage_env and u = False and i = 1 and w = ?w0,
      THEN conjunct1]
  have A: "print_frame garbage_env False 1 ''garbage'' ?w0 =
     Inr \<lparr>out = ''2: garbage'' @ [newline], popen_calls = []\<rparr>"
    by (simp only: 3)
  from unparsed_frame_printed_raw [OF p, where e = garbage_env and u = False and w = ?w0
      and before = "[''./prog [0x4005a0]'']" and after = "[''./prog [0x4005a0]'']",
      THEN conjunct2, rule_format, OF b]
  have B: "print_backtrace garbage_env False ?w0 =
     Inr \<lparr>out = ''1: ? at 0x4005a0 (./prog)'' @ [newline] @ ''2: garbage'' @ [newline]
                 @ ''3: ? at 0x4005a0 (./prog)'' @ [newline],
          popen_calls = []\<rparr>"
    by (simp only: 1 sum.case 2)
  from A B show ?thesis ..
qed

text \<open>
  Claim C6. For a parsed frame with a function name that \<open>demangle_cpp_name\<close> rejects,
  there is an offset, and the text written for the frame has the mangled name, \<open>+\<close> and
  the offset as its name. The frame is completed with \<open> at \<close>, its location and a
  newline, and the report goes on with the frames after it.
\<close>

theorem demangle_failure_prints_mangled_name:
  assumes "parse symbol = Inr (Some ps)"
    and "sym_function ps = Some f"
    and "demangle_cpp_name e f = Inl demangle_failed_exc_t"
  shows "\<exists>off w'.
           sym_offset ps = Some off
         \<and> w' = (\<lambda>w. w\<lparr>out := out w @ dec (i + 1) @ '': '' @ f @ ''+'' @ off @ '' at ''
                               @ frame_location e u ps @ [newline],
                         popen_calls := popen_calls w @
                           (if u then [addr2line_cmd (sym_module ps) (sym_address ps)] else [])\<rparr>)
         \<and> print_frame e u i symbol w = Inr (w' w)
         \<and> (backtrace_symbols e = Some (before @ symbol # after) \<and> i = length before \<longrightarrow>
              print_backtrace e u w =
                (case print_frames e u 0 before w of
                   Inl f \<Rightarrow> Inl f
                 | Inr w1 \<Rightarrow> print_frames e u (length before + 1) after (w' w1)))"
proof -
  from print_frame_parsed [OF assms(1), of e] obtain name where n: "frame_name e ps = Inr name"
    by blast
  from n assms(2,3) obtain off where off: "sym_offset ps = Some off" and name: "name = f @ ''+'' @ off"
    by (auto simp: frame_name_def split: option.splits)
  define w' where "w' = (\<lambda>w::world. w\<lparr>out := out w @ dec (i + 1) @ '': '' @ f @ ''+'' @ off @ '' at ''
                               @ frame_location e u ps @ [newline],
                         popen_calls := popen_calls w @
                           (if u then [addr2line_cmd (sym_module ps) (sym_address ps)] else [])\<rparr>)"
  have pf: "print_frame e u i symbol w0 = Inr (w' w0)" for w0
    using print_frame_parsed [OF assms(1), of e u i w0] n name
    by (auto simp: w'_def)
  have "print_backtrace e u w =
                (case print_frames e u 0 before w of
                   Inl f \<Rightarrow> Inl f
                 | Inr w1 \<Rightarrow> print_frames e u (length before + 1) after (w' w1))"
    if b: "backtrace_symbols e = Some (before @ symbol # after)" and i: "i = length before"
    unfolding print_backtrace_frame [OF b] i [symmetric] pf
    by (simp add: i split: sum.splits)
  with off pf [of w] w'_def show ?thesis
    by blast
qed

theorem demangle_failure_prints_mangled_name_witness:
  "print_frame plain_c_env True 0 ''./prog(main+0x1f) [0x4005a0]'' \<lparr>out = [], popen_calls = []\<rparr> =
     Inr \<lparr>out = ''1: main+0x1f at utils.cc:548'' @ [newline],
          popen_calls = [''addr2line -s -e ./prog 0x4005a0'']\<rparr>
   \<and> print_backtrace plain_c_env True \<lparr>out = [], popen_calls = []\<rparr> =
     Inr \<lparr>out = ''1: main+0x1f at utils.cc:548'' @ [newline] @ ''2: ? at utils.cc:548'' @ [newline],
          popen_calls = [''addr2line -s -e ./prog 0x4005a0'', ''addr2line -s -e ./prog 0x4005a0'']\<rparr>"
proof -
  let ?w0 = "\<lparr>out = [], popen_calls = []\<rparr>"
  let ?ps = "\<lparr>sym_module = ''./prog'', sym_function = Some ''main'',
               sym_offset = Some ''0x1f'', sym_address = ''0x4005a0''\<rparr>"
  let ?w1 = "\<lparr>out = ''1: main+0x1f at utils.cc:548'' @ [newline],
          popen_calls = [''addr2line -s -e ./prog 0x4005a0'']\<rparr>"
  have p: "parse ''./prog(main+0x1f) [0x4005a0]'' = Inr (Some ?ps)"
    by code_simp
  have f: "sym_function ?ps = Some ''main''"
    by simp
  have d: "demangle_cpp_name plain_c_env ''main'' = Inl demangle_failed_exc_t"
    by code_simp
  have b: "backtrace_symbols plain_c_env =
      Some ([] @ ''./prog(main+0x1f) [0x4005a0]'' # [''./prog [0x4005a0]'']) \<and> (0::nat) = length ([] :: string list)"
    by (simp add: plain_c_env_def)
  from demangle_failure_prints_mangled_name [OF p f d, where i = 0 and u = True and w = ?w0
      and before = "[]" and after = "[''./prog [0x4005a0]'']"] b
  obtain off w' where off: "sym_offset ?ps = Some off"
    and w': "w' = (\<lambda>w. w\<lparr>out := out w @ dec (0 + 1) @ '': '' @ ''main'' @ ''+'' @ off @ '' at ''
                               @ frame_location plain_c_env True ?ps @ [newline],
                         popen_calls := popen_calls w @
                           (if True then [addr2line_cmd (sym_module ?ps) (sym_address ?ps)] else [])\<rparr>)"
    and pf: "print_frame plain_c_env True 0 ''./prog(main+0x1f) [0x4005a0]'' ?w0 = Inr (w' ?w0)"
    and pb: "print_backtrace plain_c_env True ?w0 =
                (case print_frames plain_c_env True 0 [] ?w0 of
                   Inl f \<Rightarrow> Inl f
                 | Inr w1 \<Rightarrow> print_frames plain_c_env True (length ([] :: string list) + 1) [''./prog [0x4005a0]''] (w' w1))"
    by blast
  from off have off: "off = ''0x1f''"
    by simp
  have 1: "?w0\<lparr>out := out ?w0 @ dec (0 + 1) @ '': '' @ ''main'' @ ''+'' @ ''0x1f'' @ '' at ''
                               @ frame_location plain_c_env True ?ps @ [newline],
                         popen_calls := popen_calls ?w0 @
                           (if True then [addr2line_cmd (sym_module ?ps) (sym_address ?ps)] else [])\<rparr> = ?w1"
    by code_simp
  have w1: "w' ?w0 = ?w1"
    unfolding w' off by (rule 1)
  have 2: "print_frames plain_c_env True (length ([] :: string list) + 1) [''./prog [0x4005a0]''] ?w1 =
     Inr \<lparr>out = ''1: main+0x1f at utils.cc:548'' @ [newline] @ ''2: ? at utils.cc:548'' @ [newline],
          popen_calls = [''addr2line -s -e ./prog 0x4005a0'', ''addr2line -s -e ./prog 0x4005a0'']\<rparr>"
    by code_simp
  from pf have A: "print_frame plain_c_env True 0 ''./prog(main+0x1f) [0x4005a0]'' ?w0 = Inr ?w1"
    by (simp only: w1)
  from pb have B: "print_backtrace plain_c_env True ?w0 =
     Inr \<lparr>out = ''1: main+0x1f at utils.cc:548'' @ [newline] @ ''2: ? at utils.cc:548'' @ [newline],
          popen_calls = [''addr2line -s -e ./prog 0x4005a0'', ''addr2line -s -e ./prog 0x4005a0'']\<rparr>"
    by (simp only: print_frames.simps(1) sum.case w1 2)
  from A B show ?thesis ..
qed

lemma popen_calls_fprintf [simp]: "popen_calls (fprintf w s) = popen_calls w"
  by (simp add: fprintf_def)

lemma print_frame_False_calls:
  assumes "print_frame e False i symbol w = Inr w'"
  shows "popen_calls w' = popen_calls w"
proof (cases "parse_backtrace_line (c_buffer symbol) 0")
  case (Inl f)
  with assms show ?thesis
    by (simp add: print_frame_def)
next
  case (Inr r)
  show ?thesis
  proof (cases r)
    case ReturnFalse
    with Inr assms show ?thesis
      by (auto simp: print_frame_def fprintf_def)
  next
    case (ReturnTrue po)
    with assms Inr show ?thesis
      by (auto simp: print_frame_def Let_def bindE_eq_Inr
          split: option.splits sum.splits exc.splits)
  qed
qed

lemma print_frames_False_calls:
  "print_frames e False i symbols w = Inr w' \<Longrightarrow> popen_calls w' = popen_calls w"
proof (induction symbols arbitrary: i w)
  case Nil
  then show ?case by simp
next
  case (Cons symbol symbols)
  then obtain w1 where 1: "print_frame e False i symbol w = Inr w1"
    and 2: "print_frames e False (i + 1) symbols w1 = Inr w'"
    by (auto split: sum.splits)
  from Cons.IH [OF 2] print_frame_False_calls [OF 1] show ?case
    by simp
qed

text \<open>
  Claim C7. With \<open>use_addr2line\<close> false, \<open>run_addr2line\<close> is not called: the location of
  every parsed frame is its address followed by its module in parentheses, and neither a
  single frame nor the whole report adds a command to those handed to \<open>popen\<close>.
\<close>

theorem no_addr2line_no_subprocess:
  "(parse symbol = Inr (Some ps) \<longrightarrow>
      (\<exists>name. frame_name e ps = Inr name
         \<and> print_frame e False i symbol w =
             Inr (w\<lparr>out := out w @ dec (i + 1) @ '': '' @ name @ '' at ''
                               @ sym_address ps @ '' ('' @ sym_module ps @ '')'' @ [newline]\<rparr>)))
   \<and> (print_frame e False i symbol w = Inr w' \<longrightarrow> popen_calls w' = popen_calls w)
   \<and> (print_backtrace e False w = Inr w'' \<longrightarrow> popen_calls w'' = popen_calls w)"
proof (intro conjI impI)
  assume "parse symbol = Inr (Some ps)"
  from print_frame_parsed [OF this, of e False i w]
  show "\<exists>name. frame_name e ps = Inr name
         \<and> print_frame e False i symbol w =
             Inr (w\<lparr>out := out w @ dec (i + 1) @ '': '' @ name @ '' at ''
                               @ sym_address ps @ '' ('' @ sym_module ps @ '')'' @ [newline]\<rparr>)"
    by (simp add: frame_location_def address_and_module_def)
next
  assume "print_frame e False i symbol w = Inr w'"
  then show "popen_calls w' = popen_calls w"
    by (rule print_frame_False_calls)
next
  assume a: "print_backtrace e False w = Inr w''"
  show "popen_calls w'' = popen_calls w"
  proof (cases "backtrace_symbols e")
    case None
    with a show ?thesis
      by (auto simp: print_backtrace_def fprintf_def)
  next
    case (Some symbols)
    with a have "print_frames e False 0 symbols w = Inr w''"
      by (simp add: print_backtrace_def)
    then show ?thesis
      by (rule print_frames_False_calls)
  qed
qed

theorem no_addr2line_no_subprocess_witness:
  "print_frame addr2line_env False 0 ''./prog [0x4005a0]'' \<lparr>out = [], popen_calls = []\<rparr> =
     Inr \<lparr>out = ''1: ? at 0x4005a0 (./prog)'' @ [newline], popen_calls = []\<rparr>
   \<and> print_backtrace addr2line_env False \<lparr>out = [], popen_calls = []\<rparr> =
     Inr \<lparr>out = ''1: ? at 0x4005a0 (./prog)'' @ [newline], popen_calls = []\<rparr>
   \<and> popen_calls \<lparr>out = ''1: ? at 0x4005a0 (./prog)'' @ [newline], popen_calls = []\<rparr> = []"
proof -
  let ?w0 = "\<lparr>out = [], popen_calls = []\<rparr>"
  let ?w1 = "\<lparr>out = ''1: ? at 0x4005a0 (./prog)'' @ [newline], popen_calls = []\<rparr>"
  let ?ps = "\<lparr>sym_module = ''./prog'', sym_function = None, sym_offset = None,
               sym_address = ''0x4005a0''\<rparr>"
  have p: "parse ''./prog [0x4005a0]'' = Inr (Some ?ps)"
    by code_simp
  have pb: "print_backtrace addr2line_env False ?w0 = Inr ?w1"
    by code_simp
  note t = no_addr2line_no_subprocess
    [where symbol = "''./prog [0x4005a0]''" and ps = ?ps and e = addr2line_env and i = 0
       and w = ?w0 and w' = ?w1 and w'' = ?w1]
  from t [THEN conjunct1, rule_format, OF p]
  obtain name where n: "frame_name addr2line_env ?ps = Inr name"
    and pf: "print_frame addr2line_env False 0 ''./prog [0x4005a0]'' ?w0 =
             Inr (?w0\<lparr>out := out ?w0 @ dec (0 + 1) @ '': '' @ name @ '' at ''
                               @ sym_address ?ps @ '' ('' @ sym_module ?ps @ '')'' @ [newline]\<rparr>)"
    by blast
  from n have name: "name = ''?''"
    by (simp add: frame_name_def)
  have 1: "?w0\<lparr>out := out ?w0 @ dec (0 + 1) @ '': '' @ ''?'' @ '' at ''
                               @ sym_address ?ps @ '' ('' @ sym_module ?ps @ '')'' @ [newline]\<rparr> = ?w1"
    by code_simp
  from pf have A: "print_frame addr2line_env False 0 ''./prog [0x4005a0]'' ?w0 = Inr ?w1"
    unfolding name by (simp only: 1)
  from t [THEN conjunct2, THEN conjunct2, rule_format, OF pb]
  have C: "popen_calls ?w1 = []"
    by simp
  from A pb C show ?thesis by blast
qed

section \<open>Memory safety of \<open>parse_backtrace_line\<close>\<close>

text \<open>
  On a NUL-terminated buffer every scan stops inside the buffer, every position after a
  non-NUL byte is inside the buffer, and writing NUL keeps the buffer terminated. This
  leaves one access that can be outside: \<open>bracket - 1\<close> in the second branch.
\<close>

lemma nul_terminated_c_buffer: "nul_terminated (c_buffer l)"
  by (simp add: nul_terminated_def c_buffer_def)

lemma nul_terminated_update: "nul_terminated mem \<Longrightarrow> nul_terminated (mem[k := NUL])"
  by (cases "k = length mem - 1") (auto simp: nul_terminated_def last_list_update last_conv_nth)

lemma nul_in_drop:
  assumes "nul_terminated mem" "0 \<le> s" "s < int (length mem)"
  shows "NUL \<in> set (drop (nat s) mem)"
proof -
  from assms have "drop (nat s) mem \<noteq> []" "last (drop (nat s) mem) = NUL"
    by (auto simp: nul_terminated_def)
  then show ?thesis
    by (metis last_in_set)
qed

lemma strchr_safe:
  assumes "nul_terminated mem" "0 \<le> s" "s < int (length mem)"
  shows "\<exists>r. strchr mem s c = Inr r"
proof (cases "strchr mem s c")
  case (Inl f)
  from strchr_InlD [OF Inl assms(2)] assms(3) nul_in_drop [OF assms] show ?thesis
    by simp
next
  case (Inr r)
  then show ?thesis by blast
qed

lemma c_str_safe:
  assumes "nul_terminated mem" "0 \<le> p" "p < int (length mem)"
  shows "\<exists>s. c_str mem p = Inr s"
proof (cases "c_str mem p")
  case (Inl f)
  from c_str_InlD [OF Inl assms(2)] assms(3) nul_in_drop [OF assms] show ?thesis
    by simp
next
  case (Inr r)
  then show ?thesis by blast
qed

lemma strchr_Some_bounds:
  assumes "strchr mem s c = Inr (Some q)" "0 \<le> s"
  shows "s \<le> q \<and> q < int (length mem) \<and> mem ! nat q = c"
proof -
  from strchr_SomeD [OF assms] obtain pre r
    where d: "drop (nat s) mem = pre @ c # r" and q: "q = s + int (length pre)"
    by blast
  have "length (drop (nat s) mem) = length pre + 1 + length r"
    by (simp add: d)
  then have len: "nat s + length pre < length mem"
    by simp
  have "mem ! (nat s + length pre) = drop (nat s) mem ! length pre"
    using len by simp
  also have "\<dots> = c"
    by (simp add: d)
  finally have "mem ! (nat s + length pre) = c" .
  moreover have "nat q = nat s + length pre"
    using q assms(2) by simp
  ultimately show ?thesis
    using q len assms(2) by simp
qed

lemma next_in_bounds:
  assumes "nul_terminated mem" "0 \<le> q" "q < int (length mem)" "mem ! nat q \<noteq> NUL"
  shows "q + 1 < int (length mem)"
proof (rule ccontr)
  assume "\<not> q + 1 < int (length mem)"
  with assms(2,3) have "nat q = length mem - 1"
    by simp
  moreover from assms(1) have "mem ! (length mem - 1) = NUL"
    by (auto simp: nul_terminated_def last_conv_nth)
  ultimately show False
    using assms(4) by simp
qed

lemma rd_in_bounds: "0 \<le> p \<Longrightarrow> p < int (length mem) \<Longrightarrow> rd mem p = Inr (mem ! nat p)"
  by (simp add: rd_def)

lemma wr_in_bounds: "0 \<le> p \<Longrightarrow> p < int (length mem) \<Longrightarrow> wr mem p c = Inr (mem[nat p := c])"
  by (simp add: wr_def)

lemma parse_address_safe:
  assumes t: "nul_terminated mem" and l: "0 \<le> line" "line < int (length mem)"
    and fn: "0 \<le> fname" "fname < int (length mem)"
    and fu: "\<forall>p. func = Some p \<longrightarrow> 0 \<le> p \<and> p < int (length mem)"
    and off: "\<forall>p. off = Some p \<longrightarrow> 0 \<le> p \<and> p < int (length mem)"
  shows "parse_address mem fname func off line = Inr ReturnFalse
       \<or> (\<exists>po. parse_address mem fname func off line = Inr (ReturnTrue po) \<and> readable po)"
proof (cases "mem ! nat line = CHR ''[''")
  case False
  with l show ?thesis
    by (simp add: parse_address_def rd_in_bounds)
next
  case True
  then have l1: "line + 1 < int (length mem)"
    using next_in_bounds [OF t l] by simp
  from strchr_safe [OF t _ l1, of "CHR '']''"] l(1) obtain r where r: "strchr mem (line + 1) CHR '']'' = Inr r"
    by auto
  show ?thesis
  proof (cases r)
    case None
    with True l r show ?thesis
      by (simp add: parse_address_def rd_in_bounds)
  next
    case (Some q)
    from strchr_Some_bounds [OF r [unfolded Some]] l(1)
    have q: "0 \<le> q" "q < int (length mem)" "mem ! nat q = CHR '']''" "line + 1 \<le> q"
      by auto
    then have q1: "q + 1 < int (length mem)"
      using next_in_bounds [OF t q(1,2)] by simp
    show ?thesis
    proof (cases "mem ! nat (q + 1) = NUL")
      case False
      with True l r Some q q1 show ?thesis
        by (simp add: parse_address_def rd_in_bounds)
    next
      case nul: True
      have "parse_address mem fname func off line =
          Inr (ReturnTrue \<lparr>buf = mem[nat q := NUL], filename = fname, function = func, offset = off,
                 address = line + 1\<rparr>)"
        using True l r Some q q1 nul
        by (simp add: parse_address_def rd_in_bounds wr_in_bounds)
      moreover have "readable \<lparr>buf = mem[nat q := NUL], filename = fname, function = func, offset = off,
                 address = line + 1\<rparr>"
        using nul_terminated_update [OF t] fn fu off l l1 by (simp add: readable_def)
      ultimately show ?thesis by blast
    qed
  qed
qed


lemma parse_backtrace_line_safe:
  assumes t: "nul_terminated mem"
  shows "parse_backtrace_line mem 0 = Inr ReturnFalse
       \<or> (\<exists>po. parse_backtrace_line mem 0 = Inr (ReturnTrue po) \<and> readable po)
       \<or> (parse_backtrace_line mem 0 = Inl (OutOfBounds (- 1))
            \<and> strchr mem 0 CHR ''('' = Inr None \<and> strchr mem 0 CHR ''['' = Inr (Some 0))"
proof -
  from t have len: "0 < int (length mem)"
    by (simp add: nul_terminated_def)
  from strchr_safe [OF t _ len] obtain r1 where r1: "strchr mem 0 CHR ''('' = Inr r1"
    by auto
  show ?thesis
  proof (cases r1)
    case None
    from strchr_safe [OF t _ len] obtain r2 where r2: "strchr mem 0 CHR ''['' = Inr r2"
      by auto
    show ?thesis
    proof (cases r2)
      case n2: None
      with r1 None r2 show ?thesis
        by (simp add: parse_backtrace_line_def)
    next
      case (Some bracket)
      from strchr_Some_bounds [OF r2 [unfolded Some]]
      have b: "0 \<le> bracket" "bracket < int (length mem)"
        by auto
      show ?thesis
      proof (cases "bracket = 0")
        case True
        with r1 None r2 Some show ?thesis
          by (simp add: parse_backtrace_line_def rd_def)
      next
        case False
        with b have b1: "0 \<le> bracket - 1" "bracket - 1 < int (length mem)"
          by auto
        show ?thesis
        proof (cases "mem ! nat (bracket - 1) = CHR '' ''")
          case nsp: False
          with r1 None r2 Some b1 show ?thesis
            by (simp add: parse_backtrace_line_def rd_in_bounds)
        next
          case sp: True
          let ?mem1 = "mem[nat (bracket - 1) := NUL]"
          have pbl: "parse_backtrace_line mem 0 = parse_address ?mem1 0 None None (bracket - 1 + 1)"
            using r1 None r2 Some b1 sp
            by (simp add: parse_backtrace_line_def rd_in_bounds wr_in_bounds)
          from parse_address_safe [OF nul_terminated_update [OF t], of "bracket - 1 + 1" "nat (bracket - 1)" 0 None None]
            b len
          show ?thesis
            unfolding pbl by auto
        qed
      qed
    qed
  next
    case (Some paren1)
    from strchr_Some_bounds [OF r1 [unfolded Some]]
    have p1: "0 \<le> paren1" "paren1 < int (length mem)" "mem ! nat paren1 = CHR ''(''"
      by auto
    then have p1n: "paren1 + 1 < int (length mem)"
      using next_in_bounds [OF t p1(1,2)] by simp
    from strchr_safe [OF t _ len] obtain r2 where r2: "strchr mem 0 CHR '')'' = Inr r2"
      by auto
    show ?thesis
    proof (cases r2)
      case None
      with r1 Some r2 show ?thesis
        by (simp add: parse_backtrace_line_def)
    next
      case s2: (Some paren2)
      from strchr_Some_bounds [OF r2 [unfolded s2]]
      have p2: "0 \<le> paren2" "paren2 < int (length mem)" "mem ! nat paren2 = CHR '')''"
        by auto
      then have p2n: "paren2 + 1 < int (length mem)"
        using next_in_bounds [OF t p2(1,2)] by simp
      let ?mem2 = "mem[nat paren2 := NUL, nat paren1 := NUL]"
      have t2: "nul_terminated ?mem2"
        by (intro nul_terminated_update t)
      have l2: "length ?mem2 = length mem"
        by simp
      from strchr_safe [OF t2, of "paren1 + 1" "CHR ''+''"] p1 p1n
      obtain r3 where r3: "strchr ?mem2 (paren1 + 1) CHR ''+'' = Inr r3"
        by auto
      show ?thesis
      proof (cases r3)
        case None
        with r1 Some r2 s2 r3 p1 p2 show ?thesis
          by (simp add: parse_backtrace_line_def wr_in_bounds)
      next
        case s3: (Some plus')
        from strchr_Some_bounds [OF r3 [unfolded s3]] p1(1)
        have pl: "0 \<le> plus'" "plus' < int (length ?mem2)" "?mem2 ! nat plus' = CHR ''+''"
          by auto
        then have pln: "plus' + 1 < int (length ?mem2)"
          using next_in_bounds [OF t2 pl(1,2)] by simp
        let ?mem3 = "?mem2[nat plus' := NUL]"
        have t3: "nul_terminated ?mem3"
          by (intro nul_terminated_update t2)
        show ?thesis
        proof (cases "?mem3 ! nat (paren2 + 1) = CHR '' ''")
          case nsp: False
          with r1 Some r2 s2 r3 s3 p1 p2 p2n pl show ?thesis
            by (simp add: parse_backtrace_line_def wr_in_bounds rd_in_bounds)
        next
          case sp: True
          have pbl: "parse_backtrace_line mem 0 =
              parse_address ?mem3 0 (Some (paren1 + 1)) (Some (plus' + 1)) (paren2 + 1 + 1)"
            using r1 Some r2 s2 r3 s3 p1 p2 p2n pl sp
            by (simp add: parse_backtrace_line_def wr_in_bounds rd_in_bounds)
          have "paren2 + 1 + 1 < int (length ?mem3)"
            using next_in_bounds [OF t3, of "paren2 + 1"] p2 p2n sp by simp
          from parse_address_safe [OF t3 _ this, of 0 "Some (paren1 + 1)" "Some (plus' + 1)"]
            p1 p1n p2 pl pln len
          show ?thesis
            unfolding pbl by auto
        qed
      qed
    qed
  qed
qed

lemma read_symbol_safe:
  assumes "readable po"
  shows "\<exists>ps. read_symbol po = Inr ps"
proof -
  from assms have t: "nul_terminated (buf po)"
    by (simp add: readable_def)
  from c_str_safe [OF t, of "filename po"] assms obtain m where m: "c_str (buf po) (filename po) = Inr m"
    by (auto simp: readable_def)
  from c_str_safe [OF t, of "address po"] assms obtain a where a: "c_str (buf po) (address po) = Inr a"
    by (auto simp: readable_def)
  have "\<exists>f. c_str_opt (buf po) (function po) = Inr f"
  proof (cases "function po")
    case None
    then show ?thesis by (simp add: c_str_opt_def)
  next
    case (Some p)
    with c_str_safe [OF t, of p] assms show ?thesis
      by (auto simp: readable_def c_str_opt_def)
  qed
  then obtain f where f: "c_str_opt (buf po) (function po) = Inr f" ..
  have "\<exists>f. c_str_opt (buf po) (offset po) = Inr f"
  proof (cases "offset po")
    case None
    then show ?thesis by (simp add: c_str_opt_def)
  next
    case (Some p)
    with c_str_safe [OF t, of p] assms show ?thesis
      by (auto simp: readable_def c_str_opt_def)
  qed
  then obtain off where off: "c_str_opt (buf po) (offset po) = Inr off" ..
  from m a f off show ?thesis
    by (simp add: read_symbol_def)
qed

lemma parse_backtrace_line_fault_iff:
  assumes "NUL \<notin> set l"
  shows "parse_backtrace_line (c_buffer l) 0 = Inl f \<longleftrightarrow> f = OutOfBounds (- 1) \<and> bracket_first l"
proof
  assume f: "parse_backtrace_line (c_buffer l) 0 = Inl f"
  with parse_backtrace_line_safe [OF nul_terminated_c_buffer, of l]
  have fv: "f = OutOfBounds (- 1)" and np: "strchr (c_buffer l) 0 CHR ''('' = Inr None"
    and br: "strchr (c_buffer l) 0 CHR ''['' = Inr (Some 0)"
    by auto
  from strchr_Some_bounds [OF br] have "(l @ [NUL]) ! 0 = CHR ''[''"
    by (simp add: c_buffer_def)
  then have l: "l \<noteq> []" "hd l = CHR ''[''"
    by (cases l; simp)+
  from strchr_NoneD [OF np] obtain pre r where pre: "l @ [NUL] = pre @ NUL # r"
    and n: "CHR ''('' \<notin> set pre" "NUL \<notin> set pre"
    by (auto simp: c_buffer_def)
  have "pre = l"
  proof (cases r rule: rev_cases)
    case Nil
    with pre show ?thesis by simp
  next
    case (snoc r0 y)
    with pre have "l = pre @ NUL # r0"
      by simp
    with assms show ?thesis by simp
  qed
  with n l fv show "f = OutOfBounds (- 1) \<and> bracket_first l"
    by (simp add: bracket_first_def)
next
  assume a: "f = OutOfBounds (- 1) \<and> bracket_first l"
  then obtain r where l: "l = CHR ''['' # r" and np: "CHR ''('' \<notin> set l"
    by (cases l) (auto simp: bracket_first_def)
  have 1: "strchr (l @ [NUL]) 0 CHR ''('' = Inr None"
    using strchr_not_found [of "CHR ''(''" l 0 "[]" "[]"] np assms by simp
  have 2: "strchr (l @ [NUL]) 0 CHR ''['' = Inr (Some 0)"
    unfolding l using strchr_found [of "CHR ''[''" "[]" 0 "[]" "r @ [NUL]"] by simp
  from 1 2 a show "parse_backtrace_line (c_buffer l) 0 = Inl f"
    by (simp add: parse_backtrace_line_def c_buffer_def rd_def)
qed

lemma parse_total:
  assumes "NUL \<notin> set l" "\<not> bracket_first l"
  shows "parse l = Inr None \<or> (\<exists>ps. parse l = Inr (Some ps))"
proof -
  from parse_backtrace_line_safe [OF nul_terminated_c_buffer, of l]
    parse_backtrace_line_fault_iff [OF assms(1)] assms(2)
  consider "parse_backtrace_line (c_buffer l) 0 = Inr ReturnFalse"
    | po where "parse_backtrace_line (c_buffer l) 0 = Inr (ReturnTrue po)" "readable po"
    by blast
  then show ?thesis
  proof cases
    case 1
    then show ?thesis by (simp add: parse_def)
  next
    case 2
    from read_symbol_safe [OF 2(2)] obtain ps where "read_symbol po = Inr ps" ..
    with 2(1) show ?thesis by (simp add: parse_def)
  qed
qed

lemma print_frame_total:
  assumes "NUL \<notin> set symbol" "\<not> bracket_first symbol"
  shows "\<exists>w'. print_frame e u i symbol w = Inr w'"
  using parse_total [OF assms] print_frame_unparsed [of symbol e u i w]
    print_frame_parsed [of symbol _ e u i w]
  by blast

lemma print_frames_total:
  assumes "\<forall>s \<in> set symbols. NUL \<notin> set s \<and> \<not> bracket_first s"
  shows "\<exists>w'. print_frames e u i symbols w = Inr w'"
  using assms
proof (induction symbols arbitrary: i w)
  case Nil
  then show ?case by simp
next
  case (Cons symbol symbols)
  from print_frame_total [of symbol e u i w] Cons.prems obtain w1
    where 1: "print_frame e u i symbol w = Inr w1"
    by auto
  from Cons.IH [of "i + 1" w1] Cons.prems obtain w' where "print_frames e u (i + 1) symbols w1 = Inr w'"
    by auto
  with 1 show ?case by simp
qed

lemma print_backtrace_total:
  assumes "\<forall>symbols. backtrace_symbols e = Some symbols \<longrightarrow>
             (\<forall>s \<in> set symbols. NUL \<notin> set s \<and> \<not> bracket_first s)"
  shows "\<exists>w'. print_backtrace e u w = Inr w'"
proof (cases "backtrace_symbols e")
  case None
  then show ?thesis by (simp add: print_backtrace_def)
next
  case (Some symbols)
  with assms print_frames_total [of symbols e u 0 w] show ?thesis
    by (simp add: print_backtrace_def)
qed

text \<open>
  Claim C10 says that every character access of \<open>parse_backtrace_line\<close> is within the
  buffer. A descriptor without \<open>(\<close> that starts with \<open>[\<close> makes the second branch read
  \<open>bracket - 1\<close>, the byte before the buffer. By \<open>parse_backtrace_line_fault_iff\<close> these
  are the only lines with an access outside the buffer, and the access is always this one.
\<close>

theorem parse_backtrace_line_reads_before_buffer:
  "parse_backtrace_line (c_buffer ''[0x4005a0]'') 0 = Inl (OutOfBounds (- 1))"
  by code_simp

section \<open>The final bracket\<close>

text \<open>
  When the first \<open>)\<close> does not precede the first \<open>(\<close>, and on every line without \<open>(\<close>,
  an accepted line ends in \<open>]\<close>: the NUL found behind the \<open>]\<close> is then the terminator of
  the line.
\<close>

lemma strchr_Some_between:
  assumes "strchr mem s c = Inr (Some q)" "0 \<le> s" "s \<le> k" "k < q"
  shows "mem ! nat k \<noteq> NUL"
proof -
  from strchr_SomeD [OF assms(1,2)] obtain pre r
    where d: "drop (nat s) mem = pre @ c # r" and q: "q = s + int (length pre)"
      and n: "NUL \<notin> set pre"
    by blast
  have len: "length (drop (nat s) mem) = length pre + 1 + length r"
    by (simp add: d)
  have i: "nat k - nat s < length pre"
    using assms(2-4) q by simp
  have "mem ! nat k = drop (nat s) mem ! (nat k - nat s)"
    using assms(2,3) len i by simp
  also have "\<dots> = pre ! (nat k - nat s)"
    using i by (simp add: d nth_append)
  finally show ?thesis
    using n i by (metis nth_mem)
qed

lemma parse_accepted_ends_in_bracket:
  assumes nn: "NUL \<notin> set l"
    and acc: "parse_backtrace_line (c_buffer l) 0 = Inr (ReturnTrue po)"
    and order: "\<forall>paren1 paren2.
        strchr (c_buffer l) 0 CHR ''('' = Inr (Some paren1) \<longrightarrow>
        strchr (c_buffer l) 0 CHR '')'' = Inr (Some paren2) \<longrightarrow> paren1 < paren2"
  shows "l \<noteq> [] \<and> last l = CHR '']''"
proof (cases "CHR ''('' \<in> set l")
  case False
  from parse_shape_B_TrueD [OF acc False nn] show ?thesis
    by auto
next
  case True
  let ?mem = "l @ [NUL]"
  from split_list_first [OF True] obtain ys zs where l: "l = ys @ CHR ''('' # zs" and ys: "CHR ''('' \<notin> set ys"
    by blast
  have r1: "strchr ?mem 0 CHR ''('' = Inr (Some (int (length ys)))"
    unfolding l using strchr_found [of "CHR ''(''" ys 0 "[]" "zs @ [NUL]"] ys nn l by simp
  define paren1 where "paren1 = int (length ys)"
  from acc r1 obtain paren2 mem1 mem2 plus' mem3 where
    r2: "strchr ?mem 0 CHR '')'' = Inr (Some paren2)"
    and w1: "wr ?mem paren2 NUL = Inr mem1"
    and w2: "wr mem1 paren1 NUL = Inr mem2"
    and r3: "strchr mem2 (paren1 + 1) CHR ''+'' = Inr (Some plus')"
    and w3: "wr mem2 plus' NUL = Inr mem3"
    and pa: "parse_address mem3 0 (Some (paren1 + 1)) (Some (plus' + 1)) (paren2 + 1 + 1) = Inr (ReturnTrue po)"
    unfolding paren1_def
    by (auto simp: parse_backtrace_line_def c_buffer_def bindE_eq_Inr Let_def
        split: option.splits if_splits)
  from order r1 r2 have ord: "paren1 < paren2"
    by (simp add: c_buffer_def paren1_def)
  have p1: "0 \<le> paren1"
    by (simp add: paren1_def)
  from wr_InrD [OF w1] have m1: "mem1 = ?mem[nat paren2 := NUL]" and p2b: "paren2 < int (length ?mem)"
    by auto
  from wr_InrD [OF w2] have m2: "mem2 = mem1[nat paren1 := NUL]"
    by auto
  from wr_InrD [OF w3] have m3: "mem3 = mem2[nat plus' := NUL]"
    by auto
  have n2: "mem2 ! nat paren2 = NUL"
    using m1 m2 p2b ord p1 by simp
  from strchr_Some_bounds [OF r3] p1
  have plb: "paren1 + 1 \<le> plus'" "mem2 ! nat plus' = CHR ''+''"
    by auto
  have pl: "plus' < paren2"
  proof (rule ccontr)
    assume "\<not> plus' < paren2"
    with plb(2) n2 have "paren2 < plus'"
      by (cases "plus' = paren2") auto
    from strchr_Some_between [OF r3 _ _ this] p1 ord n2 show False
      by simp
  qed
  from parse_address_TrueD [OF pa] obtain pre a r
    where s3: "mem3 = pre @ CHR ''['' # a @ CHR '']'' # NUL # r" and lp: "paren2 + 1 + 1 = int (length pre)"
    by blast
  define k where "k = length pre + length a + 2"
  have k3: "mem3 ! k = NUL" "mem3 ! (k - 1) = CHR '']''" "k < length mem3"
    unfolding s3 k_def by (simp_all add: nth_append)
  have far: "nat paren2 < k - 1" "nat paren1 < k - 1" "nat plus' < k - 1"
    using lp ord pl plb p1 by (simp_all add: k_def)
  have same: "mem3 ! k = ?mem ! k" "mem3 ! (k - 1) = ?mem ! (k - 1)"
    using far by (simp_all add: m1 m2 m3)
  have lm: "length mem3 = length l + 1"
    by (simp add: m1 m2 m3)
  have "k = length l"
  proof (rule ccontr)
    assume "k \<noteq> length l"
    with k3(3) lm have "k < length l"
      by simp
    with k3(1) same(1) have "l ! k = NUL"
      by (simp add: nth_append)
    with \<open>k < length l\<close> nn show False
      by (metis nth_mem)
  qed
  moreover have "0 < k"
    by (simp add: k_def)
  ultimately have "l \<noteq> []" "l ! (length l - 1) = CHR '']''"
    using k3(2) same(2) by (auto simp: nth_append)
  then show ?thesis
    by (simp add: last_conv_nth)
qed

text \<open>
  Claim C4 says that a line whose last character is not \<open>]\<close> is rejected. The first branch
  looks for \<open>)\<close> from the start of the line, not from the \<open>(\<close> it found; when the first
  \<open>)\<close> precedes the first \<open>(\<close>, the NUL written over \<open>(\<close> ends the address, and the test
  \<open>line[1] != '\0'\<close> passes in the middle of the line. By
  \<open>parse_accepted_ends_in_bracket\<close> this order of the parentheses is the only way to have
  a line accepted that does not end in \<open>]\<close>.
\<close>

theorem parse_accepts_line_not_ending_in_bracket:
  "last ''a) [x](y+z'' \<noteq> CHR '']'' \<and>
   parse ''a) [x](y+z'' =
     Inr (Some \<lparr>sym_module = ''a'', sym_function = Some ''y'', sym_offset = Some ''z'',
                  sym_address = ''x''\<rparr>)"
  by code_simp

end
